theory Spec2Isabelle
  imports Main "HOL-Library.Word"
begin

unbundle bit_operations_syntax

section \<open>Machine arithmetic shared by the encoder and the decoder\<close>

text \<open>
  The configuration headers define \<^verbatim>\<open>JINT\<close>, \<^verbatim>\<open>JLONG\<close> and \<^verbatim>\<open>INT32\<close> as 32-bit
  signed integers, \<^verbatim>\<open>JUINT\<close>, \<^verbatim>\<open>JSIZE\<close> and \<^verbatim>\<open>JDIMENSION\<close> as 32-bit unsigned
  integers. Signed values are modelled as \<open>int\<close>; where an operation of the source can
  leave the 32-bit range the wrap-around is written out with \<open>s32\<close> (signed) or
  \<open>u32\<close> (unsigned).
\<close>

definition s32 :: "int \<Rightarrow> int" where
  "s32 x = signed_take_bit 31 x"

definition u32 :: "int \<Rightarrow> int" where
  "u32 x = take_bit 32 x"

text \<open>C division truncates towards zero; dividing by zero has no result.\<close>

datatype jsc_error = Assert_failed | Div_by_zero | Undefined_behaviour

definition trunc_div :: "int \<Rightarrow> int \<Rightarrow> int" where
  "trunc_div a b = sgn a * sgn b * (\<bar>a\<bar> div \<bar>b\<bar>)"

definition c_div :: "int \<Rightarrow> int \<Rightarrow> jsc_error + int" where
  "c_div a b = (if b = 0 then Inl Div_by_zero else Inr (trunc_div a b))"

definition DCTSIZE :: int where "DCTSIZE = 8"
definition DCTSIZE2 :: int where "DCTSIZE2 = 64"
definition NUM_QUANT_TBLS :: int where "NUM_QUANT_TBLS = 4"
definition MAX_COMPS_IN_SCAN :: int where "MAX_COMPS_IN_SCAN = 4"
definition MAX_SAMP_FACTOR :: int where "MAX_SAMP_FACTOR = 4"
definition MAX_COMPONENTS :: int where "MAX_COMPONENTS = 10"
definition BITS_IN_JSAMPLE :: int where "BITS_IN_JSAMPLE = 8"
definition JPEG_MAX_DIMENSION :: int where "JPEG_MAX_DIMENSION = 65500"
definition CSTATE_START :: int where "CSTATE_START = 100"

text \<open>
  A failed \<^verbatim>\<open>JSC_ASSERT\<close> ends the call with \<open>Assert_failed\<close>; what the process does
  then is chosen by the macro that the configuration supplies.
\<close>

definition err_bind :: "jsc_error + 'a \<Rightarrow> ('a \<Rightarrow> jsc_error + 'b) \<Rightarrow> jsc_error + 'b" where
  "err_bind m f = (case m of Inl e \<Rightarrow> Inl e | Inr v \<Rightarrow> f v)"

text \<open>\<^verbatim>\<open>jdiv_round_up\<close> (jutils.c): \<open>a/b\<close> rounded up, computed in \<^verbatim>\<open>JLONG\<close>.\<close>

definition jdiv_round_up :: "int \<Rightarrow> int \<Rightarrow> jsc_error + int" where
  "jdiv_round_up a b =
     (if \<not> a \<ge> 0 then Inl Assert_failed
      else if \<not> b > 0 then Inl Assert_failed
      else Inr (trunc_div (s32 (s32 (a + b) - 1)) b))"

section \<open>The compression object (jpeglib.h, jcapimin.c)\<close>

datatype J_COLOR_SPACE =
    JCS_UNKNOWN | JCS_GRAYSCALE | JCS_RGB | JCS_YCbCr | JCS_CMYK | JCS_YCCK
  | JCS_BG_RGB | JCS_BG_YCC

record jpeg_component_info =
  component_id :: int
  component_index :: int
  h_samp_factor :: int
  v_samp_factor :: int
  quant_tbl_no :: int
  dc_tbl_no :: int
  ac_tbl_no :: int
  width_in_blocks :: int
  height_in_blocks :: int
  DCT_h_scaled_size :: int
  DCT_v_scaled_size :: int
  downsampled_width :: int
  downsampled_height :: int
  component_needed :: bool
  last_row_height :: int

definition zero_component :: jpeg_component_info where
  "zero_component =
     \<lparr>component_id = 0, component_index = 0, h_samp_factor = 0, v_samp_factor = 0,
      quant_tbl_no = 0, dc_tbl_no = 0, ac_tbl_no = 0, width_in_blocks = 0,
      height_in_blocks = 0, DCT_h_scaled_size = 0, DCT_v_scaled_size = 0,
      downsampled_width = 0, downsampled_height = 0, component_needed = False,
      last_row_height = 0\<rparr>"

record JQUANT_TBL =
  quantval :: "int list"
  sent_table :: bool

text \<open>
  The fields of \<^verbatim>\<open>struct jpeg_compress_struct\<close> that the modelled functions use. A
  pointer that is \<^verbatim>\<open>NULL\<close> is \<open>None\<close>; the \<^verbatim>\<open>comp_info\<close> array is a list, empty
  while the pointer is \<^verbatim>\<open>NULL\<close>. Values of the unsigned type \<^verbatim>\<open>JDIMENSION\<close> are
  kept as non-negative integers.
\<close>

record compress_params =
  global_state :: int
  quant_tbl_ptrs :: "JQUANT_TBL option list"
  image_width :: int
  image_height :: int
  input_components :: int
  in_color_space :: J_COLOR_SPACE
  jpeg_color_space :: J_COLOR_SPACE
  data_precision :: int
  num_components :: int
  comp_info :: "jpeg_component_info list"
  block_size :: int
  lim_Se :: int
  restart_in_rows :: int
  restart_interval :: int
  jpeg_width :: int
  jpeg_height :: int
  min_DCT_h_scaled_size :: int
  min_DCT_v_scaled_size :: int
  max_h_samp_factor :: int
  max_v_samp_factor :: int
  total_iMCU_rows :: int

text \<open>
  \<^verbatim>\<open>jpeg_create_compress\<close>: the structure is zeroed, then the table pointers, the
  block size and the state are set.
\<close>

definition jpeg_create_compress :: compress_params where
  "jpeg_create_compress =
     \<lparr>global_state = CSTATE_START,
      quant_tbl_ptrs = [None, None, None, None],
      image_width = 0, image_height = 0, input_components = 0,
      in_color_space = JCS_UNKNOWN, jpeg_color_space = JCS_UNKNOWN,
      data_precision = 0, num_components = 0, comp_info = [],
      block_size = DCTSIZE, lim_Se = DCTSIZE2 - 1,
      restart_in_rows = 0, restart_interval = 0,
      jpeg_width = 0, jpeg_height = 0,
      min_DCT_h_scaled_size = 0, min_DCT_v_scaled_size = 0,
      max_h_samp_factor = 0, max_v_samp_factor = 0, total_iMCU_rows = 0\<rparr>"

section \<open>Quantization table setup (jcparam.c)\<close>

text \<open>\<^verbatim>\<open>jpeg_quality_scaling\<close>: the two safety limits, then the scaling curve.\<close>

definition jpeg_quality_scaling :: "int \<Rightarrow> jsc_error + int" where
  "jpeg_quality_scaling quality0 =
     (let quality1 = (if quality0 \<le> 0 then 1 else quality0);
          quality2 = (if quality1 > 100 then 100 else quality1)
      in if quality2 < 50 then c_div 5000 quality2
         else Inr (200 - quality2 * 2))"

text \<open>
  The body of the loop of \<^verbatim>\<open>jpeg_add_quant_table\<close> for one entry. The product is
  computed in the 32-bit \<^verbatim>\<open>JLONG\<close>; the constants \<^verbatim>\<open>50L\<close> and \<^verbatim>\<open>100L\<close> are of type
  \<^verbatim>\<open>long\<close>, of 64 bits on the platforms of the configurations, so that the sum and the
  quotient are computed there without wrap-around. The quotient is stored in the
  \<^verbatim>\<open>JLONG\<close> variable \<^verbatim>\<open>temp\<close> and limited to the valid range.
\<close>

definition quant_entry :: "int \<Rightarrow> int \<Rightarrow> bool \<Rightarrow> int" where
  "quant_entry basic scale_factor force_baseline =
     (let temp0 = s32 (trunc_div (s32 (s32 basic * scale_factor) + 50) 100);
          temp1 = (if temp0 \<le> 0 then 1 else temp0);
          temp2 = (if temp1 > 32767 then 32767 else temp1);
          temp3 = (if force_baseline \<and> temp2 > 255 then 255 else temp2)
      in take_bit 16 temp3)"

definition jpeg_get_mem_quant_table :: JQUANT_TBL where
  "jpeg_get_mem_quant_table = \<lparr>quantval = replicate 64 0, sent_table = False\<rparr>"

definition jpeg_add_quant_table ::
  "compress_params \<Rightarrow> int \<Rightarrow> int list \<Rightarrow> int \<Rightarrow> bool \<Rightarrow> jsc_error + compress_params" where
  "jpeg_add_quant_table cinfo which_tbl basic_table scale_factor force_baseline =
     (if global_state cinfo \<noteq> CSTATE_START then Inl Assert_failed
      else if \<not> which_tbl \<ge> 0 then Inl Assert_failed
      else if \<not> which_tbl < NUM_QUANT_TBLS then Inl Assert_failed
      else
        let qtbl = (case quant_tbl_ptrs cinfo ! nat which_tbl of
                      None \<Rightarrow> jpeg_get_mem_quant_table
                    | Some t \<Rightarrow> t);
            qtbl' = fold (\<lambda>i t. t\<lparr>quantval := (quantval t)
                       [i := quant_entry (basic_table ! i) scale_factor force_baseline]\<rparr>)
                     [0..<nat DCTSIZE2] qtbl
        in Inr (cinfo\<lparr>quant_tbl_ptrs := (quant_tbl_ptrs cinfo)
                  [nat which_tbl := Some (qtbl'\<lparr>sent_table := False\<rparr>)]\<rparr>))"

definition std_luminance_quant_tbl :: "int list" where
  "std_luminance_quant_tbl =
    [16, 11, 10, 16, 24, 40, 51, 61,
     12, 12, 14, 19, 26, 58, 60, 55,
     14, 13, 16, 24, 40, 57, 69, 56,
     14, 17, 22, 29, 51, 87, 80, 62,
     18, 22, 37, 56, 68, 109, 103, 77,
     24, 35, 55, 64, 81, 104, 113, 92,
     49, 64, 78, 87, 103, 121, 120, 101,
     72, 92, 95, 98, 112, 100, 103, 99]"

definition std_chrominance_quant_tbl :: "int list" where
  "std_chrominance_quant_tbl =
    [17, 18, 24, 47, 99, 99, 99, 99,
     18, 21, 26, 66, 99, 99, 99, 99,
     24, 26, 56, 99, 99, 99, 99, 99,
     47, 66, 99, 99, 99, 99, 99, 99,
     99, 99, 99, 99, 99, 99, 99, 99,
     99, 99, 99, 99, 99, 99, 99, 99,
     99, 99, 99, 99, 99, 99, 99, 99,
     99, 99, 99, 99, 99, 99, 99, 99]"

definition jpeg_set_linear_quality ::
  "compress_params \<Rightarrow> int \<Rightarrow> bool \<Rightarrow> jsc_error + compress_params" where
  "jpeg_set_linear_quality cinfo scale_factor force_baseline =
     (case jpeg_add_quant_table cinfo 0 std_luminance_quant_tbl scale_factor force_baseline of
        Inl e \<Rightarrow> Inl e
      | Inr cinfo' \<Rightarrow>
          jpeg_add_quant_table cinfo' 1 std_chrominance_quant_tbl scale_factor force_baseline)"

definition jpeg_set_quality ::
  "compress_params \<Rightarrow> int \<Rightarrow> bool \<Rightarrow> jsc_error + compress_params" where
  "jpeg_set_quality cinfo quality force_baseline =
     (case jpeg_quality_scaling quality of
        Inl e \<Rightarrow> Inl e
      | Inr q \<Rightarrow> jpeg_set_linear_quality cinfo q force_baseline)"

text \<open>The scaling curve and the clamp in the words of the specification.\<close>

definition spec_quality_scale :: "int \<Rightarrow> int" where
  "spec_quality_scale q = (if q \<le> 50 then 5000 div q else 200 - 2 * q)"

definition spec_clamp :: "int \<Rightarrow> int \<Rightarrow> int \<Rightarrow> int" where
  "spec_clamp x lo hi = max lo (min hi x)"

definition spec_quant_entry :: "int \<Rightarrow> int \<Rightarrow> bool \<Rightarrow> int" where
  "spec_quant_entry basic scale baseline =
     spec_clamp ((basic * scale + 50) div 100) 1 (if baseline then 255 else 32767)"

definition quant_tbls_ok :: "compress_params \<Rightarrow> bool" where
  "quant_tbls_ok cinfo \<longleftrightarrow>
     length (quant_tbl_ptrs cinfo) = nat NUM_QUANT_TBLS \<and>
     list_all (\<lambda>p. case p of None \<Rightarrow> True | Some t \<Rightarrow> length (quantval t) = nat DCTSIZE2)
       (quant_tbl_ptrs cinfo)"

section \<open>Marker reading and restart resynchronisation (jdmarker.c)\<close>

text \<open>Warnings are recorded in the order in which the source issues them.\<close>

datatype jwarning =
    JWRN_MUST_RESYNC int int
  | JWRN_EXTRANEOUS_DATA int int
  | JWRN_HIT_MARKER
  | JWRN_HUFF_BAD_CODE

definition M_SOF0 :: int where "M_SOF0 = 0xC0"
definition M_RST0 :: int where "M_RST0 = 0xD0"
definition M_RST7 :: int where "M_RST7 = 0xD7"

text \<open>
  The data source is the list of bytes from \<^verbatim>\<open>next_input_byte\<close> on, so that
  \<^verbatim>\<open>bytes_in_buffer\<close> is its length. The memory source cannot refill
  (\<^verbatim>\<open>fill_mem_input_buffer\<close> returns \<^verbatim>\<open>FALSE\<close>), hence \<^verbatim>\<open>INPUT_BYTE\<close> on an empty
  list takes its suspension action.
\<close>

record marker_state =
  src_bytes :: "8 word list"
  unread_marker :: int
  discarded_bytes :: int
  next_restart_num :: int
  warnings :: "jwarning list"

text \<open>
  \<^verbatim>\<open>next_marker\<close> reads through local copies of the source fields and writes them back
  with \<^verbatim>\<open>INPUT_SYNC\<close>; the first argument of the helpers is the local copy.
  \<open>next_marker_skip\<close> is the part of the loop that discards bytes other than 0xFF,
  \<open>next_marker_swallow\<close> the part that swallows duplicate 0xFF bytes, and
  \<open>next_marker_found\<close> the code after the loop.
\<close>

definition next_marker_found ::
  "int \<Rightarrow> 8 word list \<Rightarrow> marker_state \<Rightarrow> bool \<times> marker_state" where
  "next_marker_found c loc st =
     (if discarded_bytes st \<noteq> 0
      then (False, st\<lparr>discarded_bytes := 0,
                       warnings := warnings st @ [JWRN_EXTRANEOUS_DATA (discarded_bytes st) c]\<rparr>)
      else (True, st\<lparr>unread_marker := c, src_bytes := loc\<rparr>))"

fun next_marker_skip :: "8 word list \<Rightarrow> marker_state \<Rightarrow> bool \<times> marker_state"
  and next_marker_swallow :: "8 word list \<Rightarrow> marker_state \<Rightarrow> bool \<times> marker_state" where
  "next_marker_skip [] st = (False, st)"
| "next_marker_skip (b # loc) st =
     (if uint b \<noteq> 0xFF
      then next_marker_skip loc
             (st\<lparr>discarded_bytes := u32 (discarded_bytes st + 1), src_bytes := loc\<rparr>)
      else next_marker_swallow loc st)"
| "next_marker_swallow [] st = (False, st)"
| "next_marker_swallow (b # loc) st =
     (if uint b = 0xFF then next_marker_swallow loc st
      else if uint b \<noteq> 0 then next_marker_found (uint b) loc st
      else next_marker_skip loc
             (st\<lparr>discarded_bytes := u32 (discarded_bytes st + 2), src_bytes := loc\<rparr>))"

definition next_marker :: "marker_state \<Rightarrow> bool \<times> marker_state" where
  "next_marker st = next_marker_skip (src_bytes st) st"

text \<open>The decision at the head of the loop of \<^verbatim>\<open>jpeg_resync_to_restart\<close>.\<close>

definition resync_action :: "int \<Rightarrow> int \<Rightarrow> int" where
  "resync_action marker desired =
     (if marker < M_SOF0 then 2
      else if marker < M_RST0 \<or> marker > M_RST7 then 3
      else if marker = M_RST0 + ((desired + 1) AND 7) \<or>
              marker = M_RST0 + ((desired + 2) AND 7) then 3
      else if marker = M_RST0 + ((desired - 1) AND 7) \<or>
              marker = M_RST0 + ((desired - 2) AND 7) then 2
      else 1)"

lemma next_marker_scan_shorter:
  "next_marker_skip loc st = (True, st') \<Longrightarrow> length (src_bytes st') < length loc"
  "next_marker_swallow loc st = (True, st') \<Longrightarrow> length (src_bytes st') < length loc"
  by (induction loc st and loc st rule: next_marker_skip_next_marker_swallow.induct)
     (auto simp: next_marker_found_def split: if_splits)

text \<open>
  The outer loop of \<^verbatim>\<open>jpeg_resync_to_restart\<close>. It repeats only after a successful
  \<^verbatim>\<open>next_marker\<close>, which has consumed input.
\<close>

function resync_loop :: "marker_state \<Rightarrow> int \<Rightarrow> int \<Rightarrow> bool \<times> marker_state" where
  "resync_loop st marker desired =
     (let action = resync_action marker desired in
      if action = 1 then (True, st\<lparr>unread_marker := 0\<rparr>)
      else if action = 2 then
        (case next_marker st of
           (False, st') \<Rightarrow> (False, st')
         | (True, st') \<Rightarrow> resync_loop st' (unread_marker st') desired)
      else (True, st))"
  by pat_completeness auto
termination
  by (relation "measure (\<lambda>(st, marker, desired). length (src_bytes st))")
     (auto simp: next_marker_def dest: next_marker_scan_shorter(1)[OF sym])

declare resync_loop.simps [simp del]

definition jpeg_resync_to_restart :: "marker_state \<Rightarrow> int \<Rightarrow> bool \<times> marker_state" where
  "jpeg_resync_to_restart st desired =
     resync_loop (st\<lparr>warnings := warnings st @ [JWRN_MUST_RESYNC (unread_marker st) desired]\<rparr>)
       (unread_marker st) desired"

definition read_restart_marker :: "marker_state \<Rightarrow> bool \<times> marker_state" where
  "read_restart_marker st =
     (case (if unread_marker st = 0 then next_marker st else (True, st)) of
        (False, st1) \<Rightarrow> (False, st1)
      | (True, st1) \<Rightarrow>
          (case (if unread_marker st1 = M_RST0 + next_restart_num st1
                 then (True, st1\<lparr>unread_marker := 0\<rparr>)
                 else jpeg_resync_to_restart st1 (next_restart_num st1)) of
             (False, st2) \<Rightarrow> (False, st2)
           | (True, st2) \<Rightarrow>
               (True, st2\<lparr>next_restart_num := (next_restart_num st2 + 1) AND 7\<rparr>)))"

section \<open>Parameter setup (jcparam.c)\<close>

definition NUM_HUFF_TBLS :: int where "NUM_HUFF_TBLS = 2"

definition jpeg_set_comp ::
  "compress_params \<Rightarrow> int \<Rightarrow> int \<Rightarrow> int \<Rightarrow> int \<Rightarrow> int \<Rightarrow> int \<Rightarrow> int
     \<Rightarrow> jsc_error + compress_params" where
  "jpeg_set_comp cinfo index comp_id hsamp vsamp quant dctbl actbl =
     (if comp_info cinfo = [] then Inl Assert_failed
      else if \<not> index < MAX_COMPONENTS then Inl Assert_failed
      else if \<not> comp_id \<ge> 0 then Inl Assert_failed
      else if \<not> comp_id \<le> 255 then Inl Assert_failed
      else if \<not> hsamp > 0 then Inl Assert_failed
      else if \<not> hsamp \<le> MAX_SAMP_FACTOR then Inl Assert_failed
      else if \<not> vsamp > 0 then Inl Assert_failed
      else if \<not> vsamp \<le> MAX_SAMP_FACTOR then Inl Assert_failed
      else if \<not> quant \<ge> 0 then Inl Assert_failed
      else if \<not> quant < NUM_QUANT_TBLS then Inl Assert_failed
      else if \<not> dctbl \<ge> 0 then Inl Assert_failed
      else if \<not> dctbl < NUM_HUFF_TBLS then Inl Assert_failed
      else if \<not> actbl \<ge> 0 then Inl Assert_failed
      else if \<not> actbl < NUM_HUFF_TBLS then Inl Assert_failed
      else Inr (cinfo\<lparr>comp_info := (comp_info cinfo)
             [nat index := (comp_info cinfo ! nat index)
                \<lparr>component_id := comp_id, h_samp_factor := hsamp, v_samp_factor := vsamp,
                 quant_tbl_no := quant, dc_tbl_no := dctbl, ac_tbl_no := actbl\<rparr>]\<rparr>))"

text \<open>The components of a colour space, as rows of arguments of \<^verbatim>\<open>jpeg_set_comp\<close>.\<close>

fun set_comps ::
  "compress_params \<Rightarrow> (int \<times> int \<times> int \<times> int \<times> int \<times> int \<times> int) list
     \<Rightarrow> jsc_error + compress_params" where
  "set_comps cinfo [] = Inr cinfo"
| "set_comps cinfo ((index, comp_id, hsamp, vsamp, quant, dctbl, actbl) # rest) =
     err_bind (jpeg_set_comp cinfo index comp_id hsamp vsamp quant dctbl actbl)
       (\<lambda>cinfo'. set_comps cinfo' rest)"

definition jpeg_set_colorspace ::
  "compress_params \<Rightarrow> J_COLOR_SPACE \<Rightarrow> jsc_error + compress_params" where
  "jpeg_set_colorspace cinfo colorspace =
     (if global_state cinfo \<noteq> CSTATE_START then Inl Assert_failed
      else err_bind
        (case colorspace of
           JCS_UNKNOWN \<Rightarrow>
             (let c = cinfo\<lparr>num_components := input_components cinfo\<rparr> in
              if \<not> num_components c \<ge> 1 then Inl Assert_failed
              else if \<not> num_components c \<le> MAX_COMPONENTS then Inl Assert_failed
              else set_comps c
                     (map (\<lambda>ci. (int ci, int ci, 1, 1, 0, 0, 0)) [0..<nat (num_components c)]))
         | JCS_GRAYSCALE \<Rightarrow>
             set_comps (cinfo\<lparr>num_components := 1\<rparr>) [(0, 0x01, 1, 1, 0, 0, 0)]
         | JCS_RGB \<Rightarrow>
             set_comps (cinfo\<lparr>num_components := 3\<rparr>)
               [(0, 0x52, 1, 1, 0, 0, 0), (1, 0x47, 1, 1, 0, 0, 0), (2, 0x42, 1, 1, 0, 0, 0)]
         | JCS_YCbCr \<Rightarrow>
             set_comps (cinfo\<lparr>num_components := 3\<rparr>)
               [(0, 0x01, 2, 2, 0, 0, 0), (1, 0x02, 1, 1, 1, 1, 1), (2, 0x03, 1, 1, 1, 1, 1)]
         | JCS_CMYK \<Rightarrow>
             set_comps (cinfo\<lparr>num_components := 4\<rparr>)
               [(0, 0x43, 1, 1, 0, 0, 0), (1, 0x4D, 1, 1, 0, 0, 0), (2, 0x59, 1, 1, 0, 0, 0),
                (3, 0x4B, 1, 1, 0, 0, 0)]
         | JCS_YCCK \<Rightarrow>
             set_comps (cinfo\<lparr>num_components := 4\<rparr>)
               [(0, 0x01, 2, 2, 0, 0, 0), (1, 0x02, 1, 1, 1, 1, 1), (2, 0x03, 1, 1, 1, 1, 1),
                (3, 0x04, 2, 2, 0, 0, 0)]
         | JCS_BG_RGB \<Rightarrow>
             set_comps (cinfo\<lparr>num_components := 3\<rparr>)
               [(0, 0x72, 1, 1, 0, 0, 0), (1, 0x67, 1, 1, 0, 0, 0), (2, 0x62, 1, 1, 0, 0, 0)]
         | JCS_BG_YCC \<Rightarrow>
             set_comps (cinfo\<lparr>num_components := 3\<rparr>)
               [(0, 0x01, 2, 2, 0, 0, 0), (1, 0x22, 1, 1, 1, 1, 1), (2, 0x23, 1, 1, 1, 1, 1)])
        (\<lambda>c. Inr (c\<lparr>jpeg_color_space := colorspace\<rparr>)))"

definition jpeg_default_colorspace :: "compress_params \<Rightarrow> jsc_error + compress_params" where
  "jpeg_default_colorspace cinfo =
     (case in_color_space cinfo of
        JCS_UNKNOWN \<Rightarrow> jpeg_set_colorspace cinfo JCS_UNKNOWN
      | JCS_GRAYSCALE \<Rightarrow> jpeg_set_colorspace cinfo JCS_GRAYSCALE
      | JCS_RGB \<Rightarrow> jpeg_set_colorspace cinfo JCS_YCbCr
      | JCS_YCbCr \<Rightarrow> jpeg_set_colorspace cinfo JCS_YCbCr
      | JCS_CMYK \<Rightarrow> jpeg_set_colorspace cinfo JCS_CMYK
      | JCS_YCCK \<Rightarrow> jpeg_set_colorspace cinfo JCS_YCCK
      | JCS_BG_RGB \<Rightarrow> jpeg_set_colorspace cinfo JCS_BG_RGB
      | JCS_BG_YCC \<Rightarrow> jpeg_set_colorspace cinfo JCS_BG_YCC)"

text \<open>
  \<^verbatim>\<open>jpeg_set_defaults\<close>, for the fields of the model. The component array is taken
  from the working memory when it is still \<^verbatim>\<open>NULL\<close>; the working memory is assumed to
  hold it.
\<close>

definition jpeg_set_defaults :: "compress_params \<Rightarrow> jsc_error + compress_params" where
  "jpeg_set_defaults cinfo =
     (if global_state cinfo \<noteq> CSTATE_START then Inl Assert_failed
      else
        let c1 = (if comp_info cinfo = []
                  then cinfo\<lparr>comp_info := replicate (nat MAX_COMPONENTS) zero_component\<rparr>
                  else cinfo);
            c2 = c1\<lparr>data_precision := BITS_IN_JSAMPLE\<rparr>
        in err_bind (jpeg_set_quality c2 75 True)
             (\<lambda>c3. jpeg_default_colorspace (c3\<lparr>restart_interval := 0, restart_in_rows := 0\<rparr>)))"

section \<open>The one-call compression interface (jsc\_compress.c)\<close>

record JscImage =
  height :: int
  width :: int
  n_components :: int
  color_space :: J_COLOR_SPACE
  data :: "8 word list"

text \<open>
  The loop of \<^verbatim>\<open>set_restart_sections\<close> that finds the largest vertical sampling
  factor, over the first \<^verbatim>\<open>num_components\<close> entries of \<^verbatim>\<open>comp_info\<close>.
\<close>

text \<open>(The local variable \<^verbatim>\<open>max_v_samp_factor\<close> is \<open>max_v_samp\<close> here.)\<close>

fun largest_v_samp_factor :: "int \<Rightarrow> jpeg_component_info list \<Rightarrow> jsc_error + int" where
  "largest_v_samp_factor max_v_samp [] = Inr max_v_samp"
| "largest_v_samp_factor max_v_samp (compptr # rest) =
     (if \<not> v_samp_factor compptr > 0 then Inl Assert_failed
      else if \<not> v_samp_factor compptr \<le> MAX_SAMP_FACTOR then Inl Assert_failed
      else largest_v_samp_factor (max max_v_samp (v_samp_factor compptr)) rest)"

definition set_restart_sections :: "compress_params \<Rightarrow> int \<Rightarrow> jsc_error + compress_params" where
  "set_restart_sections cinfo n_restart_sections =
     (if n_restart_sections > 1 then
        if \<not> num_components cinfo > 0 then Inl Assert_failed
        else if \<not> num_components cinfo \<le> MAX_COMPS_IN_SCAN then Inl Assert_failed
        else if comp_info cinfo = [] then Inl Assert_failed
        else
          err_bind (largest_v_samp_factor 1 (take (nat (num_components cinfo)) (comp_info cinfo)))
            (\<lambda>max_v_samp.
          err_bind (jdiv_round_up (s32 (image_width cinfo))
                      (s32 (max_v_samp * block_size cinfo)))
            (\<lambda>rows. let MCU_rows_in_scan = u32 rows in
          err_bind (jdiv_round_up (s32 MCU_rows_in_scan) n_restart_sections)
            (\<lambda>r. let cinfo' = cinfo\<lparr>restart_in_rows := s32 (u32 r)\<rparr> in
                  if \<not> restart_in_rows cinfo' > 0 then Inl Assert_failed
                  else Inr cinfo')))
      else Inr cinfo)"

text \<open>
  \<^verbatim>\<open>jsc_compress_rst\<close> up to the call of \<^verbatim>\<open>jpeg_start_compress\<close>: the parameters
  with which the compressor is started. (The checks of the pointers and of the size of
  the working memory, and the destination, are not part of this model.)
\<close>

definition jsc_compress_rst_params :: "JscImage \<Rightarrow> int \<Rightarrow> int \<Rightarrow> jsc_error + compress_params" where
  "jsc_compress_rst_params img quality n_restart_sections =
     (let cinfo = jpeg_create_compress
                    \<lparr>image_width := width img, image_height := height img,
                     input_components := n_components img,
                     in_color_space := color_space img\<rparr>
      in err_bind (jpeg_set_defaults cinfo)
           (\<lambda>c1. err_bind (jpeg_set_quality c1 quality True)
           (\<lambda>c2. set_restart_sections c2 n_restart_sections)))"

text \<open>\<^verbatim>\<open>jsc_compress\<close> chooses the number of sections from the img height.\<close>

definition jsc_compress_params :: "JscImage \<Rightarrow> int \<Rightarrow> jsc_error + compress_params" where
  "jsc_compress_params img quality =
     (let n_restart_sections = s32 (trunc_div (height img) DCTSIZE2)
      in jsc_compress_rst_params img quality n_restart_sections)"

text \<open>The number of rows per restart section in the words of the specification.\<close>

definition spec_ceil_div :: "int \<Rightarrow> int \<Rightarrow> int" where
  "spec_ceil_div a b = (a + b - 1) div b"

definition spec_iMCU_rows :: "int \<Rightarrow> int \<Rightarrow> int" where
  "spec_iMCU_rows h max_v = spec_ceil_div h (max_v * 8)"

definition spec_restart_in_rows :: "int \<Rightarrow> int \<Rightarrow> int \<Rightarrow> int" where
  "spec_restart_in_rows h max_v n =
     spec_ceil_div (spec_iMCU_rows h max_v) n"

section \<open>Checks of the image dimensions in the compressor (jcinit.c, jcmaster.c)\<close>

text \<open>\<^verbatim>\<open>jpeg_calc_jpeg_dimensions\<close> (jcinit.c).\<close>

definition jpeg_calc_jpeg_dimensions :: "compress_params \<Rightarrow> jsc_error + compress_params" where
  "jpeg_calc_jpeg_dimensions cinfo =
     (if \<not> (drop_bit 24 (s32 (image_width cinfo)) = 0) then Inl Assert_failed
      else if \<not> (drop_bit 24 (s32 (image_height cinfo)) = 0) then Inl Assert_failed
      else Inr (cinfo\<lparr>jpeg_width := image_width cinfo, jpeg_height := image_height cinfo,
                        min_DCT_h_scaled_size := DCTSIZE, min_DCT_v_scaled_size := DCTSIZE\<rparr>))"

text \<open>
  \<^verbatim>\<open>initial_setup\<close> of jcmaster.c. Its first loop checks the sampling factors and finds
  their maxima; the arguments are the maxima so far.
\<close>

fun jcmaster_max_samp_factors ::
  "int \<Rightarrow> int \<Rightarrow> jpeg_component_info list \<Rightarrow> jsc_error + int \<times> int" where
  "jcmaster_max_samp_factors max_h max_v [] = Inr (max_h, max_v)"
| "jcmaster_max_samp_factors max_h max_v (compptr # rest) =
     (if \<not> h_samp_factor compptr > 0 then Inl Assert_failed
      else if \<not> v_samp_factor compptr > 0 then Inl Assert_failed
      else if \<not> h_samp_factor compptr \<le> MAX_SAMP_FACTOR then Inl Assert_failed
      else if \<not> v_samp_factor compptr \<le> MAX_SAMP_FACTOR then Inl Assert_failed
      else jcmaster_max_samp_factors (max max_h (h_samp_factor compptr))
             (max max_v (v_samp_factor compptr)) rest)"

text \<open>The body of its second loop, for the component with index \<open>ci\<close>.\<close>

definition jcmaster_component_dimensions ::
  "compress_params \<Rightarrow> int \<Rightarrow> jpeg_component_info \<Rightarrow> jsc_error + jpeg_component_info" where
  "jcmaster_component_dimensions cinfo ci compptr =
     (let h0 = min_DCT_h_scaled_size cinfo * 1;
          v0 = min_DCT_v_scaled_size cinfo * 1;
          h1 = (if h0 > v0 * 2 then v0 * 2 else h0);
          v1 = (if h0 > v0 * 2 then v0 else if v0 > h0 * 2 then h0 * 2 else v0)
      in err_bind (jdiv_round_up (s32 (s32 (jpeg_width cinfo) * h_samp_factor compptr))
                     (s32 (max_h_samp_factor cinfo * block_size cinfo)))
           (\<lambda>wb.
         err_bind (jdiv_round_up (s32 (s32 (jpeg_height cinfo) * v_samp_factor compptr))
                     (s32 (max_v_samp_factor cinfo * block_size cinfo)))
           (\<lambda>hb.
         err_bind (jdiv_round_up
                     (s32 (s32 (jpeg_width cinfo) * s32 (h_samp_factor compptr * h1)))
                     (s32 (max_h_samp_factor cinfo * block_size cinfo)))
           (\<lambda>dw.
         err_bind (jdiv_round_up
                     (s32 (s32 (jpeg_height cinfo) * s32 (v_samp_factor compptr * v1)))
                     (s32 (max_v_samp_factor cinfo * block_size cinfo)))
           (\<lambda>dh.
         Inr (compptr\<lparr>component_index := ci,
                       DCT_h_scaled_size := h1, DCT_v_scaled_size := v1,
                       width_in_blocks := u32 wb, height_in_blocks := u32 hb,
                       downsampled_width := u32 dw, downsampled_height := u32 dh,
                       component_needed := False\<rparr>))))))"

fun jcmaster_all_dimensions ::
  "compress_params \<Rightarrow> int \<Rightarrow> jpeg_component_info list \<Rightarrow> jsc_error + jpeg_component_info list" where
  "jcmaster_all_dimensions cinfo ci [] = Inr []"
| "jcmaster_all_dimensions cinfo ci (compptr # rest) =
     err_bind (jcmaster_component_dimensions cinfo ci compptr)
       (\<lambda>c. err_bind (jcmaster_all_dimensions cinfo (ci + 1) rest) (\<lambda>cs. Inr (c # cs)))"

definition jcmaster_initial_setup :: "compress_params \<Rightarrow> jsc_error + compress_params" where
  "jcmaster_initial_setup cinfo0 =
     (if \<not> block_size cinfo0 \<ge> 1 then Inl Assert_failed
      else if \<not> block_size cinfo0 \<le> 16 then Inl Assert_failed
      else if \<not> block_size cinfo0 = DCTSIZE then Inl Assert_failed
      else
        let cinfo = cinfo0\<lparr>lim_Se := (if block_size cinfo0 < DCTSIZE
                                       then block_size cinfo0 * block_size cinfo0 - 1
                                       else DCTSIZE2 - 1)\<rparr>
        in
        if \<not> jpeg_height cinfo > 0 then Inl Assert_failed
        else if \<not> jpeg_width cinfo > 0 then Inl Assert_failed
        else if \<not> num_components cinfo > 0 then Inl Assert_failed
        else if \<not> jpeg_height cinfo \<le> JPEG_MAX_DIMENSION then Inl Assert_failed
        else if \<not> jpeg_width cinfo \<le> JPEG_MAX_DIMENSION then Inl Assert_failed
        else if \<not> data_precision cinfo \<ge> 8 then Inl Assert_failed
        else if \<not> data_precision cinfo \<le> 12 then Inl Assert_failed
        else if \<not> num_components cinfo \<le> MAX_COMPONENTS then Inl Assert_failed
        else
          err_bind (jcmaster_max_samp_factors 1 1
                      (take (nat (num_components cinfo)) (comp_info cinfo)))
            (\<lambda>(max_h, max_v).
               let cinfo1 = cinfo\<lparr>max_h_samp_factor := max_h, max_v_samp_factor := max_v\<rparr> in
               err_bind (jcmaster_all_dimensions cinfo1 0
                           (take (nat (num_components cinfo1)) (comp_info cinfo1)))
                 (\<lambda>comps.
                    let cinfo2 = cinfo1\<lparr>comp_info :=
                                   comps @ drop (nat (num_components cinfo1)) (comp_info cinfo1)\<rparr>
                    in err_bind (jdiv_round_up (s32 (jpeg_height cinfo2))
                                   (s32 (max_v_samp_factor cinfo2 * block_size cinfo2)))
                         (\<lambda>rows. Inr (cinfo2\<lparr>total_iMCU_rows := u32 rows\<rparr>)))))"

text \<open>
  \<^verbatim>\<open>jinit_compress_master\<close> (jcinit.c) from its entry to the return of
  \<^verbatim>\<open>initial_setup\<close>, which \<^verbatim>\<open>jinit_c_master_control\<close> calls first: the checks of the
  input image, \<^verbatim>\<open>jpeg_calc_jpeg_dimensions\<close>, then \<^verbatim>\<open>initial_setup\<close>. This is the only
  way in which \<^verbatim>\<open>initial_setup\<close> is reached. (The allocation of the master record lies
  between the two and does not touch these fields.)
\<close>

definition jinit_compress_master_checks :: "compress_params \<Rightarrow> jsc_error + compress_params" where
  "jinit_compress_master_checks cinfo =
     (if \<not> data_precision cinfo = BITS_IN_JSAMPLE then Inl Assert_failed
      else if \<not> image_height cinfo > 0 then Inl Assert_failed
      else if \<not> image_width cinfo > 0 then Inl Assert_failed
      else if \<not> input_components cinfo > 0 then Inl Assert_failed
      else
        let samplesperrow = s32 (s32 (image_width cinfo) * s32 (input_components cinfo));
            jd_samplesperrow = u32 samplesperrow
        in if \<not> s32 jd_samplesperrow = samplesperrow then Inl Assert_failed
           else err_bind (jpeg_calc_jpeg_dimensions cinfo) jcmaster_initial_setup)"

section \<open>Checks of the image dimensions in the decompressor (jdmarker.c, jdinput.c)\<close>

datatype jerror_code =
    JERR_JSC_NOSUPPORT | JERR_SOF_DUPLICATE | JERR_EMPTY_IMAGE | JERR_BAD_LENGTH
  | JERR_BAD_PRECISION int | JERR_OUT_OF_MEMORY

text \<open>
  The fields of \<^verbatim>\<open>struct jpeg_decompress_struct\<close> used here, with the data source
  (the bytes from \<^verbatim>\<open>next_input_byte\<close> on), the size of the working memory and the
  warnings issued.
\<close>

record decompress_params =
  d_src :: "8 word list"
  d_mem_size :: int
  d_saw_SOF :: bool
  d_is_baseline :: bool
  d_data_precision :: int
  d_image_height :: int
  d_image_width :: int
  d_num_components :: int
  d_comps_in_scan :: int
  d_comp_info :: "jpeg_component_info list"
  d_block_size :: int
  d_lim_Se :: int
  d_min_DCT_h_scaled_size :: int
  d_min_DCT_v_scaled_size :: int
  d_max_h_samp_factor :: int
  d_max_v_samp_factor :: int
  d_total_iMCU_rows :: int
  d_has_multiple_scans :: bool
  d_warned :: "jerror_code list"

definition JSC_WORKING_MEM_SIZE :: "int \<Rightarrow> int \<Rightarrow> int" where
  "JSC_WORKING_MEM_SIZE n_comps width_pix = n_comps * (width_pix * 16 + 7000) + 2000"

text \<open>
  \<^verbatim>\<open>get_sof\<close> up to (not including) the allocation and the reading of the
  components: the fixed part of the SOF segment and the checks made on it.
  \<^verbatim>\<open>INPUT_BYTE\<close> and \<^verbatim>\<open>INPUT_2BYTES\<close> suspend (\<^verbatim>\<open>return FALSE\<close>) when the source is
  empty; the fields they have stored by then stay stored. The reads go through local
  copies of the source fields, which this part of the function never writes back. The
  result \<open>(True, _)\<close> means that the function goes on to the components.
\<close>

definition get_sof_header ::
  "decompress_params \<Rightarrow> bool \<Rightarrow> bool \<Rightarrow> bool \<Rightarrow> bool \<times> decompress_params" where
  "get_sof_header cinfo0 is_baseline is_prog is_arith =
     (if \<not> is_baseline \<or> is_prog \<or> is_arith
      then (False, cinfo0\<lparr>d_warned := d_warned cinfo0 @ [JERR_JSC_NOSUPPORT]\<rparr>)
      else
        let cinfo1 = cinfo0\<lparr>d_is_baseline := is_baseline\<rparr> in
        (case d_src cinfo1 of
           l1 # l2 # p # rest3 \<Rightarrow>
             (let length0 = s32 (u32 (push_bit 8 (uint l1)) + uint l2);
                  cinfo2 = cinfo1\<lparr>d_data_precision := uint p\<rparr>
              in case rest3 of
                   [] \<Rightarrow> (False, cinfo2)
                 | [h1] \<Rightarrow> (False, cinfo2\<lparr>d_image_height := u32 (push_bit 8 (uint h1))\<rparr>)
                 | h1 # h2 # rest5 \<Rightarrow>
                     (let cinfo3 = cinfo2\<lparr>d_image_height :=
                                     u32 (u32 (push_bit 8 (uint h1)) + uint h2)\<rparr>
                      in case rest5 of
                           [] \<Rightarrow> (False, cinfo3)
                         | [w1] \<Rightarrow>
                             (False, cinfo3\<lparr>d_image_width := u32 (push_bit 8 (uint w1))\<rparr>)
                         | w1 # w2 # rest7 \<Rightarrow>
                             (let cinfo4 = cinfo3\<lparr>d_image_width :=
                                             u32 (u32 (push_bit 8 (uint w1)) + uint w2)\<rparr>
                              in case rest7 of
                                   [] \<Rightarrow> (False, cinfo4)
                                 | n # rest8 \<Rightarrow>
                                     (let cinfo5 = cinfo4\<lparr>d_num_components := uint n\<rparr>;
                                          length1 = s32 (length0 - 8);
                                          warn = (\<lambda>w. (False, cinfo5\<lparr>d_warned :=
                                                           d_warned cinfo5 @ [w]\<rparr>))
                                      in
                                      if d_saw_SOF cinfo5 then warn JERR_SOF_DUPLICATE
                                      else if d_image_height cinfo5 \<le> 0
                                              \<or> d_image_width cinfo5 \<le> 0
                                              \<or> d_num_components cinfo5 \<le> 0
                                        then warn JERR_EMPTY_IMAGE
                                      else if length1 \<noteq> s32 (d_num_components cinfo5 * 3)
                                        then warn JERR_BAD_LENGTH
                                      else if d_data_precision cinfo5 \<noteq> BITS_IN_JSAMPLE
                                        then warn (JERR_BAD_PRECISION (d_data_precision cinfo5))
                                      else if d_mem_size cinfo5 <
                                                u32 (JSC_WORKING_MEM_SIZE
                                                       (d_num_components cinfo5)
                                                       (d_image_width cinfo5))
                                        then warn JERR_OUT_OF_MEMORY
                                      else (True, cinfo5)))))
         | _ \<Rightarrow> (False, cinfo1)))"

text \<open>\<^verbatim>\<open>initial_setup\<close> of jdinput.c.\<close>

fun jdinput_max_samp_factors ::
  "int \<Rightarrow> int \<Rightarrow> jpeg_component_info list \<Rightarrow> jsc_error + int \<times> int" where
  "jdinput_max_samp_factors max_h max_v [] = Inr (max_h, max_v)"
| "jdinput_max_samp_factors max_h max_v (compptr # rest) =
     (if \<not> h_samp_factor compptr > 0 then Inl Assert_failed
      else if \<not> h_samp_factor compptr \<le> MAX_SAMP_FACTOR then Inl Assert_failed
      else if \<not> v_samp_factor compptr > 0 then Inl Assert_failed
      else if \<not> v_samp_factor compptr \<le> MAX_SAMP_FACTOR then Inl Assert_failed
      else jdinput_max_samp_factors (max max_h (h_samp_factor compptr))
             (max max_v (v_samp_factor compptr)) rest)"

definition jdinput_component_dimensions ::
  "decompress_params \<Rightarrow> jpeg_component_info \<Rightarrow> jsc_error + jpeg_component_info" where
  "jdinput_component_dimensions cinfo compptr =
     err_bind (jdiv_round_up (s32 (s32 (d_image_width cinfo) * h_samp_factor compptr))
                 (s32 (d_max_h_samp_factor cinfo * d_block_size cinfo)))
       (\<lambda>wb.
     err_bind (jdiv_round_up (s32 (s32 (d_image_height cinfo) * v_samp_factor compptr))
                 (s32 (d_max_v_samp_factor cinfo * d_block_size cinfo)))
       (\<lambda>hb.
     err_bind (jdiv_round_up (s32 (s32 (d_image_width cinfo) * h_samp_factor compptr))
                 (d_max_h_samp_factor cinfo))
       (\<lambda>dw.
     err_bind (jdiv_round_up (s32 (s32 (d_image_height cinfo) * v_samp_factor compptr))
                 (d_max_v_samp_factor cinfo))
       (\<lambda>dh.
     Inr (compptr\<lparr>DCT_h_scaled_size := d_block_size cinfo,
                   DCT_v_scaled_size := d_block_size cinfo,
                   width_in_blocks := u32 wb, height_in_blocks := u32 hb,
                   downsampled_width := u32 dw, downsampled_height := u32 dh,
                   component_needed := True\<rparr>)))))"

fun jdinput_all_dimensions ::
  "decompress_params \<Rightarrow> jpeg_component_info list \<Rightarrow> jsc_error + jpeg_component_info list" where
  "jdinput_all_dimensions cinfo [] = Inr []"
| "jdinput_all_dimensions cinfo (compptr # rest) =
     err_bind (jdinput_component_dimensions cinfo compptr)
       (\<lambda>c. err_bind (jdinput_all_dimensions cinfo rest) (\<lambda>cs. Inr (c # cs)))"

definition jdinput_initial_setup :: "decompress_params \<Rightarrow> jsc_error + decompress_params" where
  "jdinput_initial_setup cinfo =
     (if \<not> s32 (d_image_height cinfo) \<le> JPEG_MAX_DIMENSION then Inl Assert_failed
      else if \<not> s32 (d_image_width cinfo) \<le> JPEG_MAX_DIMENSION then Inl Assert_failed
      else if \<not> d_data_precision cinfo \<ge> 8 then Inl Assert_failed
      else if \<not> d_data_precision cinfo \<le> 12 then Inl Assert_failed
      else if \<not> d_num_components cinfo \<le> MAX_COMPONENTS then Inl Assert_failed
      else
        err_bind (jdinput_max_samp_factors 1 1
                    (take (nat (d_num_components cinfo)) (d_comp_info cinfo)))
          (\<lambda>(max_h, max_v).
             if \<not> d_is_baseline cinfo then Inl Assert_failed
             else
               let cinfo1 = cinfo\<lparr>d_max_h_samp_factor := max_h, d_max_v_samp_factor := max_v,
                                  d_block_size := DCTSIZE, d_lim_Se := DCTSIZE2 - 1,
                                  d_min_DCT_h_scaled_size := DCTSIZE,
                                  d_min_DCT_v_scaled_size := DCTSIZE\<rparr>
               in err_bind (jdinput_all_dimensions cinfo1
                              (take (nat (d_num_components cinfo1)) (d_comp_info cinfo1)))
                    (\<lambda>comps.
                       let cinfo2 = cinfo1\<lparr>d_comp_info :=
                                      comps @ drop (nat (d_num_components cinfo1))
                                                (d_comp_info cinfo1)\<rparr>
                       in err_bind (jdiv_round_up (s32 (d_image_height cinfo2))
                                      (s32 (d_max_v_samp_factor cinfo2 * d_block_size cinfo2)))
                            (\<lambda>rows. Inr (cinfo2\<lparr>d_total_iMCU_rows := u32 rows,
                                          d_has_multiple_scans :=
                                            (d_comps_in_scan cinfo2 < d_num_components cinfo2)\<rparr>)))))"

text \<open>
  Parameters that pass every check of the two \<^verbatim>\<open>initial_setup\<close> functions other than
  those of the image dimensions: what \<^verbatim>\<open>jpeg_set_defaults\<close> and
  \<^verbatim>\<open>jpeg_calc_jpeg_dimensions\<close> establish in the compressor, and what a baseline SOF
  segment (16-bit dimensions) establishes in the decompressor.
\<close>

definition samp_factors_ok :: "jpeg_component_info \<Rightarrow> bool" where
  "samp_factors_ok compptr \<longleftrightarrow>
     1 \<le> h_samp_factor compptr \<and> h_samp_factor compptr \<le> MAX_SAMP_FACTOR \<and>
     1 \<le> v_samp_factor compptr \<and> v_samp_factor compptr \<le> MAX_SAMP_FACTOR"

definition compress_params_ok :: "compress_params \<Rightarrow> bool" where
  "compress_params_ok cinfo \<longleftrightarrow>
     block_size cinfo = DCTSIZE \<and>
     8 \<le> data_precision cinfo \<and> data_precision cinfo \<le> 12 \<and>
     0 < num_components cinfo \<and> num_components cinfo \<le> MAX_COMPONENTS \<and>
     nat (num_components cinfo) \<le> length (comp_info cinfo) \<and>
     list_all samp_factors_ok (take (nat (num_components cinfo)) (comp_info cinfo)) \<and>
     min_DCT_h_scaled_size cinfo = DCTSIZE \<and> min_DCT_v_scaled_size cinfo = DCTSIZE \<and>
     0 \<le> jpeg_width cinfo \<and> jpeg_width cinfo < 2 ^ 32 \<and>
     0 \<le> jpeg_height cinfo \<and> jpeg_height cinfo < 2 ^ 32"

definition decompress_params_ok :: "decompress_params \<Rightarrow> bool" where
  "decompress_params_ok cinfo \<longleftrightarrow>
     d_is_baseline cinfo \<and>
     8 \<le> d_data_precision cinfo \<and> d_data_precision cinfo \<le> 12 \<and>
     0 < d_num_components cinfo \<and> d_num_components cinfo \<le> MAX_COMPONENTS \<and>
     nat (d_num_components cinfo) \<le> length (d_comp_info cinfo) \<and>
     list_all samp_factors_ok (take (nat (d_num_components cinfo)) (d_comp_info cinfo)) \<and>
     0 \<le> d_image_width cinfo \<and> d_image_width cinfo < 2 ^ 16 \<and>
     0 \<le> d_image_height cinfo \<and> d_image_height cinfo < 2 ^ 16"

text \<open>
  An input image for the compressor that passes every check of
  \<^verbatim>\<open>jinit_compress_master\<close> and \<^verbatim>\<open>initial_setup\<close> other than those of its dimensions,
  as \<^verbatim>\<open>jpeg_set_defaults\<close> leaves the parameters.
\<close>

definition compress_input_ok :: "compress_params \<Rightarrow> bool" where
  "compress_input_ok cinfo \<longleftrightarrow>
     block_size cinfo = DCTSIZE \<and> data_precision cinfo = BITS_IN_JSAMPLE \<and>
     0 < input_components cinfo \<and>
     0 < num_components cinfo \<and> num_components cinfo \<le> MAX_COMPONENTS \<and>
     nat (num_components cinfo) \<le> length (comp_info cinfo) \<and>
     list_all samp_factors_ok (take (nat (num_components cinfo)) (comp_info cinfo)) \<and>
     0 \<le> image_width cinfo \<and> image_width cinfo < 2 ^ 32 \<and>
     0 \<le> image_height cinfo \<and> image_height cinfo < 2 ^ 32"

text \<open>
  Example parameters. In the compressor a 640 by 480 grayscale image. In the
  decompressor a fresh object with 2000000 bytes of working memory whose source holds
  the SOF0 segment of a frame 480 rows high and 65501 columns wide with one component:
  length 11, precision 8, height 0x01E0, width 0xFFDD, one component with identifier 1,
  sampling factors 1 by 1 and quantization table 0.
\<close>

definition example_cinfo :: compress_params where
  "example_cinfo = jpeg_create_compress
     \<lparr>image_width := 640, image_height := 480, input_components := 1,
      data_precision := 8, num_components := 1,
      comp_info := [zero_component\<lparr>h_samp_factor := 1, v_samp_factor := 1\<rparr>]\<rparr>"

definition example_dinfo :: decompress_params where
  "example_dinfo =
     \<lparr>d_src = [0x00, 0x0B, 0x08, 0x01, 0xE0, 0xFF, 0xDD, 0x01, 0x01, 0x11, 0x00],
      d_mem_size = 2000000, d_saw_SOF = False, d_is_baseline = False, d_data_precision = 0,
      d_image_height = 0, d_image_width = 0, d_num_components = 0,
      d_comps_in_scan = 0, d_comp_info = [],
      d_block_size = 0, d_lim_Se = 0, d_min_DCT_h_scaled_size = 0,
      d_min_DCT_v_scaled_size = 0, d_max_h_samp_factor = 0, d_max_v_samp_factor = 0,
      d_total_iMCU_rows = 0, d_has_multiple_scans = False, d_warned = []\<rparr>"

text \<open>
  The decompression object when \<^verbatim>\<open>get_sof\<close> has returned \<^verbatim>\<open>TRUE\<close> for the example
  segment: the fields of the header as \<open>get_sof_header\<close> stores them, and the component
  that the rest of \<^verbatim>\<open>get_sof\<close> reads from the last three bytes.
\<close>

definition example_frame :: decompress_params where
  "example_frame = (snd (get_sof_header example_dinfo True False False))
     \<lparr>d_src := [], d_saw_SOF := True,
      d_comp_info := [zero_component\<lparr>component_id := 1, h_samp_factor := 1,
                                     v_samp_factor := 1, quant_tbl_no := 0\<rparr>]\<rparr>"

section \<open>Huffman entropy encoding (jchuff.c)\<close>

text \<open>
  C leaves a shift by a negative amount or by the width of the type, and the overflow
  of signed arithmetic, undefined; the model ends such a call with
  \<open>Undefined_behaviour\<close> instead of inventing a value.
\<close>

definition c_shl :: "int \<Rightarrow> int \<Rightarrow> jsc_error + int" where
  "c_shl x n = (if n < 0 \<or> n \<ge> 32 then Inl Undefined_behaviour
                else Inr (s32 (push_bit (nat n) x)))"

definition JPEG_RST0 :: int where "JPEG_RST0 = 0xD0"
definition MAX_COEF_BITS :: int where "MAX_COEF_BITS = 10"

definition jpeg_natural_order :: "int list" where
  "jpeg_natural_order =
    [0, 1, 8, 16, 9, 2, 3, 10,
     17, 24, 32, 25, 18, 11, 4, 5,
     12, 19, 26, 33, 40, 48, 41, 34,
     27, 20, 13, 6, 7, 14, 21, 28,
     35, 42, 49, 56, 57, 50, 43, 36,
     29, 22, 15, 23, 30, 37, 44, 51,
     58, 59, 52, 45, 38, 31, 39, 46,
     53, 60, 61, 54, 47, 55, 62, 63,
     63, 63, 63, 63, 63, 63, 63, 63,
     63, 63, 63, 63, 63, 63, 63, 63]"

record c_derived_tbl =
  ehufco :: "int list"
  ehufsi :: "int list"

record savable_state =
  put_buffer :: int
  put_bits :: int
  last_dc_val :: "int list"

text \<open>
  The destination: \<open>outbuf\<close> is the memory of the output buffer and
  \<^verbatim>\<open>next_output_byte\<close> an offset into it. The working state of an MCU writes into the
  same memory through its own copy of the pointer.
\<close>

record jpeg_destination_mgr =
  outbuf :: "8 word list"
  next_output_byte :: nat
  free_in_buffer :: int

record huff_entropy_encoder =
  saved :: savable_state
  restarts_to_go :: int
  next_restart_num :: int
  dc_derived_tbls :: "c_derived_tbl option list"
  ac_derived_tbls :: "c_derived_tbl option list"

text \<open>The compression object with the fields of a scan in progress.\<close>

record compress_struct = compress_params +
  natural_order :: "int list"
  comps_in_scan :: int
  cur_comp_info :: "jpeg_component_info list"
  blocks_in_MCU :: int
  MCU_membership :: "int list"
  dest :: jpeg_destination_mgr
  entropy :: huff_entropy_encoder

text \<open>
  \<^verbatim>\<open>working_state\<close>: the destination fields and the bit buffer, copied for the
  duration of one MCU. Its \<^verbatim>\<open>cinfo\<close> pointer is only read, for the three fields kept
  here.
\<close>

record working_state =
  ws_dest :: jpeg_destination_mgr
  cur :: savable_state
  ws_comps_in_scan :: int
  ws_lim_Se :: int
  ws_natural_order :: "int list"

text \<open>
  The macro \<^verbatim>\<open>emit_byte_s\<close>: store the byte, advance, count down, and take the action
  when the count has reached zero. The result is \<open>False\<close> when the action
  (\<^verbatim>\<open>return FALSE\<close> at every use) is taken.
\<close>

definition emit_byte_s :: "working_state \<Rightarrow> int \<Rightarrow> bool \<times> working_state" where
  "emit_byte_s state val =
     (let d = ws_dest state;
          d' = d\<lparr>outbuf := (outbuf d)[next_output_byte d := word_of_int val],
                 next_output_byte := Suc (next_output_byte d),
                 free_in_buffer := u32 (free_in_buffer d - 1)\<rparr>
      in (free_in_buffer d' \<noteq> 0, state\<lparr>ws_dest := d'\<rparr>))"

text \<open>The loop of \<^verbatim>\<open>emit_bits_s\<close> over the local \<^verbatim>\<open>put_buffer\<close> and \<^verbatim>\<open>put_bits\<close>.\<close>

function emit_bits_loop ::
  "working_state \<Rightarrow> int \<Rightarrow> int \<Rightarrow> bool \<times> working_state \<times> int \<times> int" where
  "emit_bits_loop state put_buffer' put_bits' =
     (if put_bits' \<ge> 8 then
        let c = drop_bit 16 put_buffer' AND 0xFF in
        case emit_byte_s state c of
          (False, s1) \<Rightarrow> (False, s1, put_buffer', put_bits')
        | (True, s1) \<Rightarrow>
            (case (if c = 0xFF then emit_byte_s s1 0 else (True, s1)) of
               (False, s2) \<Rightarrow> (False, s2, put_buffer', put_bits')
             | (True, s2) \<Rightarrow>
                 emit_bits_loop s2 (s32 (push_bit 8 put_buffer')) (put_bits' - 8))
      else (True, state, put_buffer', put_bits'))"
  by pat_completeness auto
termination
  by (relation "measure (\<lambda>(state, b, n). nat n)") auto

declare emit_bits_loop.simps [simp del]

definition emit_bits_s :: "working_state \<Rightarrow> int \<Rightarrow> int \<Rightarrow> jsc_error + bool \<times> working_state" where
  "emit_bits_s state code sz =
     (if \<not> sz \<noteq> 0 then Inl Assert_failed
      else
        err_bind (c_shl 1 sz) (\<lambda>one_shl.
          let put_buffer0 = s32 code AND s32 (one_shl - 1);
              put_bits0 = s32 (sz + put_bits (cur state))
          in err_bind (c_shl put_buffer0 (24 - put_bits0)) (\<lambda>put_buffer1.
               let put_buffer2 = put_buffer1 OR put_buffer (cur state) in
               case emit_bits_loop state put_buffer2 put_bits0 of
                 (False, s, b, n) \<Rightarrow> Inr (False, s)
               | (True, s, b, n) \<Rightarrow>
                   Inr (True, s\<lparr>cur := (cur s)\<lparr>put_buffer := b, put_bits := n\<rparr>\<rparr>))))"

definition flush_bits_s :: "working_state \<Rightarrow> jsc_error + bool \<times> working_state" where
  "flush_bits_s state =
     err_bind (emit_bits_s state 0x7F 7) (\<lambda>(ok, s).
       if \<not> ok then Inr (False, s)
       else Inr (True, s\<lparr>cur := (cur s)\<lparr>put_buffer := 0, put_bits := 0\<rparr>\<rparr>))"

definition emit_restart_s :: "working_state \<Rightarrow> int \<Rightarrow> jsc_error + bool \<times> working_state" where
  "emit_restart_s state restart_num =
     err_bind (flush_bits_s state) (\<lambda>(ok, s0).
       if \<not> ok then Inr (False, s0)
       else case emit_byte_s s0 0xFF of
              (False, s1) \<Rightarrow> Inr (False, s1)
            | (True, s1) \<Rightarrow>
                (case emit_byte_s s1 (JPEG_RST0 + restart_num) of
                   (False, s2) \<Rightarrow> Inr (False, s2)
                 | (True, s2) \<Rightarrow>
                     Inr (True, s2\<lparr>cur := (cur s2)\<lparr>last_dc_val :=
                            fold (\<lambda>ci l. l[ci := 0]) [0..<nat (ws_comps_in_scan s2)]
                              (last_dc_val (cur s2))\<rparr>\<rparr>)))"

text \<open>
  The two loops of \<^verbatim>\<open>encode_one_block\<close> that count the bits of a magnitude:
  \<^verbatim>\<open>while (temp) { nbits++; temp >>= 1; }\<close> is \<open>count_bits temp 0\<close>, and
  \<^verbatim>\<open>nbits = 1; while ((temp >>= 1)) nbits++;\<close> is \<open>count_bits (temp div 2) 1\<close>.
  The magnitude is not negative there.
\<close>

fun count_bits :: "nat \<Rightarrow> int \<Rightarrow> int" where
  "count_bits temp nbits = (if temp = 0 then nbits else count_bits (temp div 2) (nbits + 1))"

declare count_bits.simps [simp del]

text \<open>The loop that emits the run-length-16 codes while the run exceeds 15.\<close>

function emit_zrl_loop ::
  "c_derived_tbl \<Rightarrow> working_state \<Rightarrow> int \<Rightarrow> jsc_error + bool \<times> working_state \<times> int" where
  "emit_zrl_loop actbl state r =
     (if r > 15 then
        case emit_bits_s state (ehufco actbl ! 0xF0) (ehufsi actbl ! 0xF0) of
          Inl e \<Rightarrow> Inl e
        | Inr (False, s) \<Rightarrow> Inr (False, s, r)
        | Inr (True, s) \<Rightarrow> emit_zrl_loop actbl s (r - 16)
      else Inr (True, state, r))"
  by pat_completeness auto
termination
  by (relation "measure (\<lambda>(actbl, state, r). nat r)") auto

declare emit_zrl_loop.simps [simp del]

text \<open>
  The body of the loop over the AC coefficients for a coefficient \<open>temp2\<close> that is
  not zero, after a run of \<open>r\<close> zeros.
\<close>

definition encode_nonzero_coef ::
  "c_derived_tbl \<Rightarrow> working_state \<Rightarrow> int \<Rightarrow> int \<Rightarrow> jsc_error + bool \<times> working_state" where
  "encode_nonzero_coef actbl state r temp2 =
     err_bind (emit_zrl_loop actbl state r) (\<lambda>(ok, s1, r1).
       if \<not> ok then Inr (False, s1)
       else
         let temp = (if temp2 < 0 then - temp2 else temp2);
             temp2' = (if temp2 < 0 then temp2 - 1 else temp2);
             nbits = count_bits (nat temp div 2) 1
         in if \<not> nbits \<le> MAX_COEF_BITS then Inl Assert_failed
            else
              let sym = push_bit 4 r1 + nbits in
              err_bind (emit_bits_s s1 (ehufco actbl ! nat sym) (ehufsi actbl ! nat sym))
                (\<lambda>(ok, s2).
                   if \<not> ok then Inr (False, s2)
                   else emit_bits_s s2 (u32 temp2') nbits))"

text \<open>
  The loop over the AC coefficients, \<open>k\<close> running up to \<open>Se\<close>; \<open>r\<close> is the run
  length of zeros. The result carries the final run length.
\<close>

function encode_ac_loop ::
  "c_derived_tbl \<Rightarrow> 16 word list \<Rightarrow> int \<Rightarrow> int list \<Rightarrow> working_state \<Rightarrow> int \<Rightarrow> int
     \<Rightarrow> jsc_error + bool \<times> working_state \<times> int" where
  "encode_ac_loop actbl block Se order state r k =
     (if k \<le> Se then
        if sint (block ! nat (order ! nat k)) = 0
        then encode_ac_loop actbl block Se order state (r + 1) (k + 1)
        else
          case encode_nonzero_coef actbl state r (sint (block ! nat (order ! nat k))) of
            Inl e \<Rightarrow> Inl e
          | Inr (False, s) \<Rightarrow> Inr (False, s, r)
          | Inr (True, s) \<Rightarrow> encode_ac_loop actbl block Se order s 0 (k + 1)
      else Inr (True, state, r))"
  by pat_completeness auto
termination
  by (relation "measure (\<lambda>(actbl, block, Se, order, state, r, k). nat (Se + 1 - k))") auto

declare encode_ac_loop.simps [simp del]

definition encode_one_block ::
  "working_state \<Rightarrow> 16 word list \<Rightarrow> int \<Rightarrow> c_derived_tbl \<Rightarrow> c_derived_tbl
     \<Rightarrow> jsc_error + bool \<times> working_state" where
  "encode_one_block state block last_dc_val' dctbl actbl =
     (let Se = ws_lim_Se state;
          order = ws_natural_order state;
          diff = sint (block ! 0) - last_dc_val'
      in if diff \<noteq> s32 diff \<or> diff = - (2 ^ 31) then Inl Undefined_behaviour
         else
           let temp = (if diff < 0 then - diff else diff);
               temp2 = (if diff < 0 then diff - 1 else diff);
               nbits = count_bits (nat temp) 0
           in if \<not> nbits \<le> MAX_COEF_BITS + 1 then Inl Assert_failed
              else
                err_bind (emit_bits_s state (ehufco dctbl ! nat nbits) (ehufsi dctbl ! nat nbits))
                  (\<lambda>(ok, s1).
                if \<not> ok then Inr (False, s1)
                else
                  err_bind (if nbits \<noteq> 0 then emit_bits_s s1 (u32 temp2) nbits
                            else Inr (True, s1))
                    (\<lambda>(ok, s2).
                  if \<not> ok then Inr (False, s2)
                  else
                    err_bind (encode_ac_loop actbl block Se order s2 0 1)
                      (\<lambda>(ok, s3, r).
                    if \<not> ok then Inr (False, s3)
                    else if r > 0
                      then emit_bits_s s3 (ehufco actbl ! 0) (ehufsi actbl ! 0)
                      else Inr (True, s3)))))"

text \<open>
  The loop of \<^verbatim>\<open>encode_mcu_huff\<close> over the blocks of the MCU, given as the list of the
  remaining block numbers. A derived table that is \<^verbatim>\<open>NULL\<close> cannot be read.
\<close>

fun encode_mcu_blocks ::
  "compress_struct \<Rightarrow> 16 word list list \<Rightarrow> working_state \<Rightarrow> nat list
     \<Rightarrow> jsc_error + bool \<times> working_state" where
  "encode_mcu_blocks cinfo MCU_data state [] = Inr (True, state)"
| "encode_mcu_blocks cinfo MCU_data state (blkn # rest) =
     (let ci = MCU_membership cinfo ! blkn;
          compptr = cur_comp_info cinfo ! nat ci
      in case (dc_derived_tbls (entropy cinfo) ! nat (dc_tbl_no compptr),
               ac_derived_tbls (entropy cinfo) ! nat (ac_tbl_no compptr)) of
           (Some dctbl, Some actbl) \<Rightarrow>
             (case encode_one_block state (MCU_data ! blkn)
                     (last_dc_val (cur state) ! nat ci) dctbl actbl of
                Inl e \<Rightarrow> Inl e
              | Inr (False, s) \<Rightarrow> Inr (False, s)
              | Inr (True, s) \<Rightarrow>
                  encode_mcu_blocks cinfo MCU_data
                    (s\<lparr>cur := (cur s)\<lparr>last_dc_val :=
                         (last_dc_val (cur s))[nat ci := sint (MCU_data ! blkn ! 0)]\<rparr>\<rparr>)
                    rest)
         | _ \<Rightarrow> Inl Undefined_behaviour)"

text \<open>
  \<^verbatim>\<open>encode_mcu_huff\<close>. When it returns \<^verbatim>\<open>FALSE\<close> nothing has been copied back; the
  bytes that the working state has stored are in the buffer memory all the same.
\<close>

definition encode_mcu_huff ::
  "compress_struct \<Rightarrow> 16 word list list \<Rightarrow> jsc_error + bool \<times> compress_struct" where
  "encode_mcu_huff cinfo MCU_data =
     (let ent = entropy cinfo;
          state = \<lparr>ws_dest = dest cinfo, cur = saved ent,
                   ws_comps_in_scan = comps_in_scan cinfo, ws_lim_Se = lim_Se cinfo,
                   ws_natural_order = natural_order cinfo\<rparr>;
          suspend = (\<lambda>s. Inr (False, cinfo\<lparr>dest := (dest cinfo)
                                   \<lparr>outbuf := outbuf (ws_dest s)\<rparr>\<rparr>))
      in err_bind (if restart_interval cinfo \<noteq> 0 \<and> restarts_to_go ent = 0
                   then emit_restart_s state (next_restart_num ent)
                   else Inr (True, state))
           (\<lambda>(ok, s1).
         if \<not> ok then suspend s1
         else
           err_bind (encode_mcu_blocks cinfo MCU_data s1 [0..<nat (blocks_in_MCU cinfo)])
             (\<lambda>(ok, s2).
           if \<not> ok then suspend s2
           else
             let ent1 = ent\<lparr>saved := cur s2\<rparr>;
                 ent2 = (if restart_interval cinfo \<noteq> 0 then
                           (let e = (if restarts_to_go ent1 = 0
                                     then ent1\<lparr>restarts_to_go := restart_interval cinfo,
                                               next_restart_num :=
                                                 s32 (next_restart_num ent1 + 1) AND 7\<rparr>
                                     else ent1)
                            in e\<lparr>restarts_to_go := u32 (restarts_to_go e - 1)\<rparr>)
                         else ent1)
             in Inr (True, cinfo\<lparr>dest := ws_dest s2, entropy := ent2\<rparr>))))"

text \<open>\<^verbatim>\<open>finish_pass_huff\<close>: flush the last bits; the flush is asserted to succeed.\<close>

definition finish_pass_huff :: "compress_struct \<Rightarrow> jsc_error + compress_struct" where
  "finish_pass_huff cinfo =
     (let state = \<lparr>ws_dest = dest cinfo, cur = saved (entropy cinfo),
                   ws_comps_in_scan = comps_in_scan cinfo, ws_lim_Se = lim_Se cinfo,
                   ws_natural_order = natural_order cinfo\<rparr>
      in err_bind (flush_bits_s state) (\<lambda>(flushed, s).
           if \<not> flushed then Inl Assert_failed
           else Inr (cinfo\<lparr>dest := ws_dest s,
                           entropy := (entropy cinfo)\<lparr>saved := cur s\<rparr>\<rparr>)))"

text \<open>
  \<open>written d\<close> is the output so far: the bytes of the buffer before
  \<^verbatim>\<open>next_output_byte\<close>. \<open>dest_ok d\<close> says that the destination is as
  \<^verbatim>\<open>jpeg_mem_dest\<close> sets it up and as every successful write keeps it: the pointer and
  the count of free bytes add up to the size of the buffer, and at least one byte is
  free.
\<close>

definition written :: "jpeg_destination_mgr \<Rightarrow> 8 word list" where
  "written d = take (next_output_byte d) (outbuf d)"

definition dest_ok :: "jpeg_destination_mgr \<Rightarrow> bool" where
  "dest_ok d \<longleftrightarrow>
     0 < free_in_buffer d \<and> free_in_buffer d < 2 ^ 32 \<and>
     next_output_byte d + nat (free_in_buffer d) = length (outbuf d)"

text \<open>
  Marker framing of a piece of entropy-coded output: every byte 0xFF is followed by a
  byte that is 0x00 or one of the restart marker codes 0xD0 to 0xD7.
\<close>

fun framed :: "8 word list \<Rightarrow> bool" where
  "framed [] = True"
| "framed [b] = (b \<noteq> 0xFF)"
| "framed (b # c # rest) =
     ((if b = 0xFF then c = 0 \<or> (0xD0 \<le> uint c \<and> uint c \<le> 0xD7) else True)
      \<and> framed (c # rest))"

text \<open>
  The entropy-coded data of a scan is what \<^verbatim>\<open>encode_mcu_huff\<close>, called for one MCU
  after the other, and then \<^verbatim>\<open>finish_pass_huff\<close> write. \<open>encode_mcus\<close> makes the
  calls for a list of MCUs and stops at the first that does not return \<^verbatim>\<open>TRUE\<close>.
\<close>

fun encode_mcus ::
  "compress_struct \<Rightarrow> 16 word list list list \<Rightarrow> jsc_error + bool \<times> compress_struct" where
  "encode_mcus cinfo [] = Inr (True, cinfo)"
| "encode_mcus cinfo (MCU_data # rest) =
     (case encode_mcu_huff cinfo MCU_data of
        Inl e \<Rightarrow> Inl e
      | Inr (False, c) \<Rightarrow> Inr (False, c)
      | Inr (True, c) \<Rightarrow> encode_mcus c rest)"

definition encode_scan ::
  "compress_struct \<Rightarrow> 16 word list list list \<Rightarrow> jsc_error + bool \<times> compress_struct" where
  "encode_scan cinfo mcus =
     (case encode_mcus cinfo mcus of
        Inl e \<Rightarrow> Inl e
      | Inr (False, c) \<Rightarrow> Inr (False, c)
      | Inr (True, c) \<Rightarrow>
          (case finish_pass_huff c of Inl e \<Rightarrow> Inl e | Inr c' \<Rightarrow> Inr (True, c')))"

text \<open>
  Two relations between the working state before and after a call. \<open>keeps\<close> holds
  whatever the call returns: the pointer has not moved back and the bytes before the old
  pointer are untouched. \<open>grows\<close> describes a call that returned \<^verbatim>\<open>TRUE\<close>: the
  output has been extended by a framed piece and the destination is still in order.
\<close>

definition keeps :: "working_state \<Rightarrow> working_state \<Rightarrow> bool" where
  "keeps s s' \<longleftrightarrow>
     next_output_byte (ws_dest s) \<le> next_output_byte (ws_dest s') \<and>
     length (outbuf (ws_dest s')) = length (outbuf (ws_dest s)) \<and>
     take (next_output_byte (ws_dest s)) (outbuf (ws_dest s'))
       = take (next_output_byte (ws_dest s)) (outbuf (ws_dest s)) \<and>
     ws_comps_in_scan s' = ws_comps_in_scan s \<and> ws_lim_Se s' = ws_lim_Se s \<and>
     ws_natural_order s' = ws_natural_order s"

definition grows :: "working_state \<Rightarrow> working_state \<Rightarrow> bool" where
  "grows s s' \<longleftrightarrow>
     dest_ok (ws_dest s') \<and>
     (\<exists>bs. written (ws_dest s') = written (ws_dest s) @ bs \<and> framed bs)"

text \<open>Both relations in one, for a call that returned \<open>ok\<close>.\<close>

definition step :: "working_state \<Rightarrow> bool \<Rightarrow> working_state \<Rightarrow> bool" where
  "step s ok s' \<longleftrightarrow> keeps s s' \<and> (if ok \<and> dest_ok (ws_dest s) then grows s s' else True)"

text \<open>
  What \<^verbatim>\<open>start_pass_huff\<close> and \<^verbatim>\<open>jpeg_mem_dest\<close> establish and every MCU keeps: the
  destination is in order and the number of the next restart marker is one of 0 to 7.
\<close>

definition scan_ok :: "compress_struct \<Rightarrow> bool" where
  "scan_ok cinfo \<longleftrightarrow>
     dest_ok (dest cinfo) \<and>
     0 \<le> next_restart_num (entropy cinfo) \<and> next_restart_num (entropy cinfo) \<le> 7"

text \<open>
  An example scan: one component, one block in each MCU, a restart after every MCU, the
  codes of the standard luminance tables for the symbols that occur, and a buffer of 16
  bytes. The block has the DC coefficient 1023 and no other, so that its code holds a run
  of ten 1-bits.
\<close>

definition example_dctbl :: c_derived_tbl where
  "example_dctbl =
     \<lparr>ehufco = [0x0, 0x2, 0x3, 0x4, 0x5, 0x6, 0xE, 0x1E, 0x3E, 0x7E, 0xFE, 0x1FE] @
                replicate 244 0,
      ehufsi = [2, 3, 3, 3, 3, 3, 4, 5, 6, 7, 8, 9] @ replicate 244 0\<rparr>"

definition example_actbl :: c_derived_tbl where
  "example_actbl =
     \<lparr>ehufco = (replicate 256 0)[0 := 0xA, 1 := 0x0, 0xF0 := 0x7F9],
      ehufsi = (replicate 256 0)[0 := 4, 1 := 2, 0xF0 := 11]\<rparr>"

definition example_block :: "16 word list" where
  "example_block = 1023 # replicate 63 0"

definition example_dest :: jpeg_destination_mgr where
  "example_dest = \<lparr>outbuf = replicate 16 0, next_output_byte = 0, free_in_buffer = 16\<rparr>"

definition example_state :: working_state where
  "example_state =
     \<lparr>ws_dest = example_dest,
      cur = \<lparr>put_buffer = 0, put_bits = 0, last_dc_val = [0, 0, 0, 0]\<rparr>,
      ws_comps_in_scan = 1, ws_lim_Se = 63, ws_natural_order = jpeg_natural_order\<rparr>"

definition example_scan :: compress_struct where
  "example_scan =
     \<lparr>global_state = CSTATE_START, quant_tbl_ptrs = [None, None, None, None],
      image_width = 8, image_height = 16, input_components = 1,
      in_color_space = JCS_GRAYSCALE, jpeg_color_space = JCS_GRAYSCALE,
      data_precision = 8, num_components = 1,
      comp_info = [zero_component\<lparr>h_samp_factor := 1, v_samp_factor := 1\<rparr>],
      block_size = 8, lim_Se = 63, restart_in_rows = 1, restart_interval = 1,
      jpeg_width = 8, jpeg_height = 16,
      min_DCT_h_scaled_size = 8, min_DCT_v_scaled_size = 8,
      max_h_samp_factor = 1, max_v_samp_factor = 1, total_iMCU_rows = 2,
      natural_order = jpeg_natural_order, comps_in_scan = 1,
      cur_comp_info = [zero_component\<lparr>h_samp_factor := 1, v_samp_factor := 1\<rparr>],
      blocks_in_MCU = 1, MCU_membership = [0],
      dest = example_dest,
      entropy = \<lparr>saved = \<lparr>put_buffer = 0, put_bits = 0, last_dc_val = [0, 0, 0, 0]\<rparr>,
                 restarts_to_go = 1, next_restart_num = 0,
                 dc_derived_tbls = [Some example_dctbl, None],
                 ac_derived_tbls = [Some example_actbl, None]\<rparr>\<rparr>"

section \<open>From a full output buffer to the result of the compression (jccoefct.c, jcmainct.c, jcapistd.c, jsc\_compress.c)\<close>

text \<open>
  The path by which a \<^verbatim>\<open>FALSE\<close> of \<^verbatim>\<open>encode_mcu_huff\<close> travels up to
  \<^verbatim>\<open>jsc_compress_rst\<close>. The samples take no part in it: the preprocessing controller
  with its buffers is a state of some type \<open>'p\<close>, the rows of the image are of some
  type \<open>'r\<close>, and what the source calls through a method pointer or leaves to the
  DCT is a parameter: \<open>prep\<close> for \<^verbatim>\<open>pre_process_data\<close>, \<open>cdata\<close> for
  \<^verbatim>\<open>compress_data\<close>, \<open>startup\<close> for \<^verbatim>\<open>pass_startup\<close>, \<open>fdct\<close> for the blocks that
  the forward DCT and the edge padding put into \<^verbatim>\<open>MCU_buffer\<close>. A loop whose end
  depends on those is a partial function: \<open>None\<close> is a loop that does not end.
\<close>

definition CSTATE_SCANNING :: int where "CSTATE_SCANNING = 101"

datatype jsc_warning = JWRN_TOO_MUCH_DATA int int | JERR_JSC_WRITE_LINE_FAIL

record my_coef_controller =
  iMCU_row_num :: int
  mcu_ctr :: int
  MCU_vert_offset :: int
  MCU_rows_per_iMCU_row :: int

record my_main_controller =
  cur_iMCU_row :: int
  rowgroup_ctr :: int
  suspended :: bool

text \<open>
  The compression object as the controllers see it: \<open>enc\<close> holds the fields that the
  entropy encoder uses.
\<close>

record compress_object =
  enc :: compress_struct
  next_scanline :: int
  MCUs_per_row :: int
  call_pass_startup :: bool
  coef :: my_coef_controller
  mainp :: my_main_controller
  c_warned :: "jsc_warning list"

definition start_iMCU_row :: "compress_object \<Rightarrow> compress_object" where
  "start_iMCU_row obj =
     (let rows = (if comps_in_scan (enc obj) > 1 then 1
                  else if iMCU_row_num (coef obj) < u32 (total_iMCU_rows (enc obj) - 1)
                    then v_samp_factor (cur_comp_info (enc obj) ! 0)
                    else last_row_height (cur_comp_info (enc obj) ! 0))
      in obj\<lparr>coef := (coef obj)\<lparr>MCU_rows_per_iMCU_row := rows, mcu_ctr := 0,
                                   MCU_vert_offset := 0\<rparr>\<rparr>)"

text \<open>
  The inner loop of \<^verbatim>\<open>compress_data\<close>, over the MCUs of a row from column
  \<^verbatim>\<open>MCU_col_num\<close> on. The counter is a \<^verbatim>\<open>JDIMENSION\<close>.
\<close>

partial_function (option) compress_MCU_row ::
  "('p \<Rightarrow> int \<Rightarrow> int \<Rightarrow> int \<Rightarrow> 16 word list list) \<Rightarrow> 'p \<Rightarrow> compress_object \<Rightarrow> int \<Rightarrow> int
     \<Rightarrow> (jsc_error + bool \<times> compress_object) option" where
  "compress_MCU_row fdct input_buf obj yoffset MCU_col_num =
     (if MCU_col_num \<le> u32 (MCUs_per_row obj - 1) then
        (case encode_mcu_huff (enc obj)
                (fdct input_buf (iMCU_row_num (coef obj)) yoffset MCU_col_num) of
           Inl e \<Rightarrow> Some (Inl e)
         | Inr (ok, c) \<Rightarrow>
             if \<not> ok
             then Some (Inr (False, obj\<lparr>enc := c,
                                        coef := (coef obj)\<lparr>MCU_vert_offset := yoffset,
                                                           mcu_ctr := MCU_col_num\<rparr>\<rparr>))
             else compress_MCU_row fdct input_buf (obj\<lparr>enc := c\<rparr>) yoffset
                    (u32 (MCU_col_num + 1)))
      else Some (Inr (True, obj)))"

text \<open>Its outer loop, over the MCU rows of the iMCU row from \<^verbatim>\<open>yoffset\<close> on.\<close>

partial_function (option) compress_MCU_rows ::
  "('p \<Rightarrow> int \<Rightarrow> int \<Rightarrow> int \<Rightarrow> 16 word list list) \<Rightarrow> 'p \<Rightarrow> compress_object \<Rightarrow> int
     \<Rightarrow> (jsc_error + bool \<times> compress_object) option" where
  "compress_MCU_rows fdct input_buf obj yoffset =
     (if yoffset < MCU_rows_per_iMCU_row (coef obj) then
        (case compress_MCU_row fdct input_buf obj yoffset (mcu_ctr (coef obj)) of
           None \<Rightarrow> None
         | Some (Inl e) \<Rightarrow> Some (Inl e)
         | Some (Inr (ok, obj1)) \<Rightarrow>
             if \<not> ok then Some (Inr (False, obj1))
             else compress_MCU_rows fdct input_buf
                    (obj1\<lparr>coef := (coef obj1)\<lparr>mcu_ctr := 0\<rparr>\<rparr>) (s32 (yoffset + 1)))
      else Some (Inr (True, obj)))"

definition compress_data ::
  "('p \<Rightarrow> int \<Rightarrow> int \<Rightarrow> int \<Rightarrow> 16 word list list) \<Rightarrow> compress_object \<Rightarrow> 'p
     \<Rightarrow> (jsc_error + bool \<times> compress_object) option" where
  "compress_data fdct obj input_buf =
     (case compress_MCU_rows fdct input_buf obj (MCU_vert_offset (coef obj)) of
        None \<Rightarrow> None
      | Some (Inl e) \<Rightarrow> Some (Inl e)
      | Some (Inr (False, obj1)) \<Rightarrow> Some (Inr (False, obj1))
      | Some (Inr (True, obj1)) \<Rightarrow>
          Some (Inr (True, start_iMCU_row
                  (obj1\<lparr>coef := (coef obj1)\<lparr>iMCU_row_num :=
                                                u32 (iMCU_row_num (coef obj1) + 1)\<rparr>\<rparr>))))"

text \<open>
  \<^verbatim>\<open>process_data_simple_main\<close> (jcmainct.c). When the compressor has not taken the
  row, the count of the input rows taken is reduced by one, once.
\<close>

partial_function (option) process_data_simple_main ::
  "(compress_object \<Rightarrow> 'p \<Rightarrow> 'r \<Rightarrow> int \<Rightarrow> int \<Rightarrow> int \<Rightarrow> 'p \<times> int \<times> int)
     \<Rightarrow> (compress_object \<Rightarrow> 'p \<Rightarrow> (jsc_error + bool \<times> compress_object) option)
     \<Rightarrow> compress_object \<Rightarrow> 'p \<Rightarrow> 'r \<Rightarrow> int \<Rightarrow> int
     \<Rightarrow> (jsc_error + compress_object \<times> 'p \<times> int) option" where
  "process_data_simple_main prep cdata obj buffer input_buf in_row_ctr in_rows_avail =
     (if cur_iMCU_row (mainp obj) < total_iMCU_rows (enc obj) then
        (case (if rowgroup_ctr (mainp obj) < u32 (min_DCT_v_scaled_size (enc obj))
               then prep obj buffer input_buf in_row_ctr in_rows_avail (rowgroup_ctr (mainp obj))
               else (buffer, in_row_ctr, rowgroup_ctr (mainp obj))) of
           (buffer1, in_row_ctr1, rowgroup_ctr1) \<Rightarrow>
             if rowgroup_ctr1 \<noteq> u32 (min_DCT_v_scaled_size (enc obj))
             then Some (Inr (obj\<lparr>mainp := (mainp obj)\<lparr>rowgroup_ctr := rowgroup_ctr1\<rparr>\<rparr>,
                             buffer1, in_row_ctr1))
             else
               (case cdata (obj\<lparr>mainp := (mainp obj)\<lparr>rowgroup_ctr := rowgroup_ctr1\<rparr>\<rparr>)
                       buffer1 of
                  None \<Rightarrow> None
                | Some (Inl e) \<Rightarrow> Some (Inl e)
                | Some (Inr (ok, obj2)) \<Rightarrow>
                    if \<not> ok then
                      if \<not> suspended (mainp obj2)
                      then Some (Inr (obj2\<lparr>mainp := (mainp obj2)\<lparr>suspended := True\<rparr>\<rparr>,
                                      buffer1, u32 (in_row_ctr1 - 1)))
                      else Some (Inr (obj2, buffer1, in_row_ctr1))
                    else if suspended (mainp obj2) then Some (Inl Assert_failed)
                    else process_data_simple_main prep cdata
                           (obj2\<lparr>mainp := (mainp obj2)
                                   \<lparr>rowgroup_ctr := 0,
                                    cur_iMCU_row := u32 (cur_iMCU_row (mainp obj2) + 1)\<rparr>\<rparr>)
                           buffer1 input_buf in_row_ctr1 in_rows_avail))
      else Some (Inr (obj, buffer, in_row_ctr)))"

text \<open>
  \<^verbatim>\<open>jpeg_write_scanlines\<close> (jcapistd.c); no progress monitor is installed. The result
  is the number of rows written.
\<close>

definition jpeg_write_scanlines ::
  "(compress_object \<Rightarrow> jsc_error + compress_object)
     \<Rightarrow> (compress_object \<Rightarrow> 'p \<Rightarrow> 'r \<Rightarrow> int \<Rightarrow> int \<Rightarrow> int \<Rightarrow> 'p \<times> int \<times> int)
     \<Rightarrow> (compress_object \<Rightarrow> 'p \<Rightarrow> (jsc_error + bool \<times> compress_object) option)
     \<Rightarrow> compress_object \<Rightarrow> 'p \<Rightarrow> 'r \<Rightarrow> int
     \<Rightarrow> (jsc_error + int \<times> compress_object \<times> 'p) option" where
  "jpeg_write_scanlines startup prep cdata obj buffer scanlines num_lines =
     (if global_state (enc obj) \<noteq> CSTATE_SCANNING then Some (Inl Assert_failed)
      else
        let obj0 = (if next_scanline obj \<ge> image_height (enc obj)
                    then obj\<lparr>c_warned := c_warned obj @
                           [JWRN_TOO_MUCH_DATA (next_scanline obj) (image_height (enc obj))]\<rparr>
                    else obj)
        in case (if call_pass_startup obj0 then startup obj0 else Inr obj0) of
             Inl e \<Rightarrow> Some (Inl e)
           | Inr obj1 \<Rightarrow>
               (let rows_left = u32 (image_height (enc obj1) - next_scanline obj1);
                    num_lines1 = (if num_lines > rows_left then rows_left else num_lines)
                in case process_data_simple_main prep cdata obj1 buffer scanlines 0 num_lines1 of
                     None \<Rightarrow> None
                   | Some (Inl e) \<Rightarrow> Some (Inl e)
                   | Some (Inr (obj2, buffer2, row_ctr)) \<Rightarrow>
                       Some (Inr (row_ctr,
                                  obj2\<lparr>next_scanline := u32 (next_scanline obj2 + row_ctr)\<rparr>,
                                  buffer2))))"

text \<open>
  Steps 5 to 7 of \<^verbatim>\<open>jsc_compress_rst\<close>: one row after the other is written; a call
  that has not written its row ends the function with -1. \<open>rows n\<close> is the image row
  number \<open>n\<close>, and \<open>finish\<close> stands for \<^verbatim>\<open>jpeg_finish_compress\<close> and
  \<^verbatim>\<open>jpeg_destroy_compress\<close>, after which the result is 0.
\<close>

partial_function (option) jsc_compress_rows ::
  "(compress_object \<Rightarrow> jsc_error + compress_object)
     \<Rightarrow> (compress_object \<Rightarrow> 'p \<Rightarrow> 'r \<Rightarrow> int \<Rightarrow> int \<Rightarrow> int \<Rightarrow> 'p \<times> int \<times> int)
     \<Rightarrow> (compress_object \<Rightarrow> 'p \<Rightarrow> (jsc_error + bool \<times> compress_object) option)
     \<Rightarrow> (compress_object \<Rightarrow> jsc_error + compress_object)
     \<Rightarrow> compress_object \<Rightarrow> 'p \<Rightarrow> (int \<Rightarrow> 'r)
     \<Rightarrow> (jsc_error + int \<times> compress_object) option" where
  "jsc_compress_rows startup prep cdata finish obj buffer rows =
     (if next_scanline obj < image_height (enc obj) then
        (case jpeg_write_scanlines startup prep cdata obj buffer (rows (next_scanline obj)) 1 of
           None \<Rightarrow> None
         | Some (Inl e) \<Rightarrow> Some (Inl e)
         | Some (Inr (rows_written, obj1, buffer1)) \<Rightarrow>
             if rows_written \<noteq> 1
             then Some (Inr (- 1, obj1\<lparr>c_warned := c_warned obj1 @
                                         [JERR_JSC_WRITE_LINE_FAIL]\<rparr>))
             else jsc_compress_rows startup prep cdata finish obj1 buffer1 rows)
      else (case finish obj of
              Inl e \<Rightarrow> Some (Inl e)
            | Inr obj1 \<Rightarrow> Some (Inr (0, obj1))))"

text \<open>
  An example: the eighth row of the example scan is being written, into an output buffer
  of two bytes; the preprocessor takes the row and completes the row group, and every
  MCU is the example block.
\<close>

definition example_object :: compress_object where
  "example_object =
     \<lparr>enc = example_scan\<lparr>global_state := CSTATE_SCANNING,
                          dest := \<lparr>outbuf = [0, 0], next_output_byte = 0,
                                   free_in_buffer = 2\<rparr>\<rparr>,
      next_scanline = 7, MCUs_per_row = 1, call_pass_startup = False,
      coef = \<lparr>iMCU_row_num = 0, mcu_ctr = 0, MCU_vert_offset = 0,
              MCU_rows_per_iMCU_row = 1\<rparr>,
      mainp = \<lparr>cur_iMCU_row = 0, rowgroup_ctr = 7, suspended = False\<rparr>,
      c_warned = []\<rparr>"

definition example_prep ::
  "compress_object \<Rightarrow> unit \<Rightarrow> unit \<Rightarrow> int \<Rightarrow> int \<Rightarrow> int \<Rightarrow> unit \<times> int \<times> int" where
  "example_prep obj buffer row in_row_ctr in_rows_avail rowgroup =
     ((), in_rows_avail, rowgroup + 1)"

definition example_fdct :: "unit \<Rightarrow> int \<Rightarrow> int \<Rightarrow> int \<Rightarrow> 16 word list list" where
  "example_fdct buffer iMCU_row yoffset MCU_col_num = [example_block]"

section \<open>Bit reading in the Huffman decoder (jdhuff.c)\<close>














section \<open>Properties: machine arithmetic\<close>

lemma s32_id: "- (2 ^ 31) \<le> x \<Longrightarrow> x < 2 ^ 31 \<Longrightarrow> s32 x = x"
  unfolding s32_def by (rule signed_take_bit_int_eq_self)

lemma trunc_div_nonneg: "0 \<le> a \<Longrightarrow> 0 < b \<Longrightarrow> trunc_div a b = a div b"
  by (cases "a = 0") (simp_all add: trunc_div_def)

section \<open>Properties: quality scaling and quantization tables\<close>

lemma quality_scaling_in_range:
  assumes "1 \<le> q" "q \<le> 100"
  shows "jpeg_quality_scaling q = Inr (spec_quality_scale q)"
  using assms
  by (auto simp: jpeg_quality_scaling_def spec_quality_scale_def c_div_def Let_def trunc_div_nonneg)

lemma spec_quality_scale_bounds:
  assumes "1 \<le> q" "q \<le> 100"
  shows "0 \<le> spec_quality_scale q" "spec_quality_scale q \<le> 5000"
proof -
  show "0 \<le> spec_quality_scale q" using assms
    by (auto simp: spec_quality_scale_def pos_imp_zdiv_nonneg_iff)
  have "5000 div q \<le> 5000 div 1" using assms by (intro zdiv_mono2) auto
  then show "spec_quality_scale q \<le> 5000" using assms
    by (auto simp: spec_quality_scale_def)
qed

lemma quant_entry_temp:
  assumes "0 \<le> b" "0 \<le> s" "b * s + 50 < 2 ^ 31"
  shows "s32 (trunc_div (s32 (s32 b * s) + 50) 100) = (b * s + 50) div 100"
proof (cases "s = 0")
  case True
  then show ?thesis by (simp add: s32_id trunc_div_nonneg)
next
  case False
  with assms have s: "1 \<le> s" by simp
  have "b * 1 \<le> b * s" using assms(1) s by (intro mult_left_mono) auto
  then have b: "b < 2 ^ 31" using assms by simp
  have bs: "0 \<le> b * s" using assms by simp
  have "s32 b = b" using assms b by (simp add: s32_id)
  moreover have "s32 (b * s) = b * s" using bs assms(3) by (intro s32_id) auto
  moreover have "s32 ((b * s + 50) div 100) = (b * s + 50) div 100"
  proof (rule s32_id)
    have "0 \<le> (b * s + 50) div 100" using bs by simp
    then show "- (2 ^ 31) \<le> (b * s + 50) div 100" by simp
    have "(b * s + 50) div 100 \<le> (b * s + 50) div 1" using bs by (intro zdiv_mono2) auto
    then show "(b * s + 50) div 100 < 2 ^ 31" using assms(3) by simp
  qed
  ultimately show ?thesis using bs by (simp add: trunc_div_nonneg)
qed

lemma quant_entry_spec:
  assumes "0 \<le> b" "0 \<le> s" "b * s + 50 < 2 ^ 31"
  shows "quant_entry b s force = spec_quant_entry b s force"
proof -
  have t: "take_bit 16 x = x" if "0 \<le> x" "x \<le> 32767" for x :: int
    using that by (simp add: take_bit_int_eq_self)
  show ?thesis
    unfolding quant_entry_def quant_entry_temp[OF assms] spec_quant_entry_def spec_clamp_def Let_def
    by (auto simp: t min_def max_def)
qed

lemma fold_quantval:
  "n \<le> length (quantval t) \<Longrightarrow>
   quantval (fold (\<lambda>i t. t\<lparr>quantval := (quantval t)[i := f i]\<rparr>) [0..<n] t)
     = map f [0..<n] @ drop n (quantval t)"
proof (induction n)
  case 0
  then show ?case by simp
next
  case (Suc n)
  then have n: "n < length (quantval t)" by simp
  have "(drop n (quantval t))[0 := f n] = f n # drop (Suc n) (quantval t)"
    using Cons_nth_drop_Suc[OF n, symmetric] by simp
  with Suc show ?case
    by (simp add: list_update_append)
qed

lemma add_quant_table_entries:
  assumes "global_state cinfo = CSTATE_START" "0 \<le> which_tbl" "which_tbl < NUM_QUANT_TBLS"
    and "quant_tbls_ok cinfo" "length basic_table = 64"
  shows "\<exists>cinfo' t. jpeg_add_quant_table cinfo which_tbl basic_table s force = Inr cinfo'
           \<and> quant_tbl_ptrs cinfo' ! nat which_tbl = Some t
           \<and> quantval t = map (\<lambda>b. quant_entry b s force) basic_table"
proof -
  define qtbl where "qtbl = (case quant_tbl_ptrs cinfo ! nat which_tbl of
                      None \<Rightarrow> jpeg_get_mem_quant_table | Some t \<Rightarrow> t)"
  have w: "nat which_tbl < length (quant_tbl_ptrs cinfo)"
    using assms by (simp add: quant_tbls_ok_def NUM_QUANT_TBLS_def)
  have len: "length (quantval qtbl) = 64"
  proof (cases "quant_tbl_ptrs cinfo ! nat which_tbl")
    case None
    then show ?thesis by (simp add: qtbl_def jpeg_get_mem_quant_table_def)
  next
    case (Some t)
    then have "Some t \<in> set (quant_tbl_ptrs cinfo)" using w by (metis nth_mem)
    with assms(4) have "length (quantval t) = 64"
      by (auto simp: quant_tbls_ok_def list_all_iff DCTSIZE2_def)
    with Some show ?thesis by (simp add: qtbl_def)
  qed
  have "map (\<lambda>i. quant_entry (basic_table ! i) s force) [0..<64]
          = map (\<lambda>b. quant_entry b s force) basic_table"
    using assms(5) by (intro nth_equalityI) auto
  then have "quantval (fold (\<lambda>i t. t\<lparr>quantval := (quantval t)
               [i := quant_entry (basic_table ! i) s force]\<rparr>) [0..<64] qtbl)
        = map (\<lambda>b. quant_entry b s force) basic_table"
    using fold_quantval[of 64 qtbl "\<lambda>i. quant_entry (basic_table ! i) s force"] len by simp
  then show ?thesis
    using assms(1-3) w
    by (simp add: jpeg_add_quant_table_def Let_def qtbl_def[symmetric] DCTSIZE2_def)
qed

text \<open>
  C7. For every quality \<open>q\<close> in \<open>[1,100]\<close> the scaling percentage returned by
  \<^verbatim>\<open>jpeg_quality_scaling\<close> is \<open>5000 div q\<close> when \<open>q \<le> 50\<close> and \<open>200 - 2q\<close> otherwise,
  and every entry that \<^verbatim>\<open>jpeg_add_quant_table\<close> stores for that scaling is
  \<open>(basic * scale + 50) div 100\<close> clamped to \<open>1..255\<close> when baseline is forced and to
  \<open>1..32767\<close> when it is not. The basic entries are unsigned and small enough for the
  product to stay inside the 32-bit \<^verbatim>\<open>JLONG\<close> (every 16-bit table value is).
\<close>

theorem quality_scaling_and_quant_entries:
  assumes "1 \<le> q" "q \<le> 100"
    and "global_state cinfo = CSTATE_START" "0 \<le> which_tbl" "which_tbl < NUM_QUANT_TBLS"
    and "quant_tbls_ok cinfo" "length basic_table = 64"
    and "\<forall>b \<in> set basic_table. 0 \<le> b \<and> b * spec_quality_scale q + 50 < 2 ^ 31"
  shows "jpeg_quality_scaling q = Inr (spec_quality_scale q) \<and>
         (\<exists>cinfo' t.
            jpeg_add_quant_table cinfo which_tbl basic_table (spec_quality_scale q) force
              = Inr cinfo'
            \<and> quant_tbl_ptrs cinfo' ! nat which_tbl = Some t
            \<and> quantval t = map (\<lambda>b. spec_quant_entry b (spec_quality_scale q) force) basic_table)"
proof -
  have "map (\<lambda>b. quant_entry b (spec_quality_scale q) force) basic_table
          = map (\<lambda>b. spec_quant_entry b (spec_quality_scale q) force) basic_table"
    using assms(8) spec_quality_scale_bounds(1)[OF assms(1,2)]
    by (intro map_cong refl quant_entry_spec) auto
  moreover obtain cinfo' t where
    "jpeg_add_quant_table cinfo which_tbl basic_table (spec_quality_scale q) force = Inr cinfo'"
    "quant_tbl_ptrs cinfo' ! nat which_tbl = Some t"
    "quantval t = map (\<lambda>b. quant_entry b (spec_quality_scale q) force) basic_table"
    using add_quant_table_entries[OF assms(3-7), of "spec_quality_scale q" force] by blast
  ultimately show ?thesis
    using quality_scaling_in_range[OF assms(1,2)] by metis
qed

theorem quality_scaling_and_quant_entries_witness:
  "jpeg_quality_scaling 75 = Inr 50 \<and>
   (\<exists>cinfo' t.
      jpeg_add_quant_table jpeg_create_compress
        0 std_luminance_quant_tbl 50 True = Inr cinfo'
      \<and> quant_tbl_ptrs cinfo' ! 0 = Some t
      \<and> quantval t =
          [8, 6, 5, 8, 12, 20, 26, 31,
           6, 6, 7, 10, 13, 29, 30, 28,
           7, 7, 8, 12, 20, 29, 35, 28,
           7, 9, 11, 15, 26, 44, 40, 31,
           9, 11, 19, 28, 34, 55, 52, 39,
           12, 18, 28, 32, 41, 52, 57, 46,
           25, 32, 39, 44, 52, 61, 60, 51,
           36, 46, 48, 49, 56, 50, 52, 50])"
  using quality_scaling_and_quant_entries
    [of 75 jpeg_create_compress 0 std_luminance_quant_tbl True]
  by (simp add: spec_quality_scale_def jpeg_create_compress_def NUM_QUANT_TBLS_def
      quant_tbls_ok_def
      std_luminance_quant_tbl_def spec_quant_entry_def spec_clamp_def)

text \<open>
  C10. For every integer quality argument, \<^verbatim>\<open>jpeg_quality_scaling\<close> gives the result it
  gives for the argument clamped to \<open>[1,100]\<close>, and it always returns a value: the
  division \<open>5000 / quality\<close> is never a division by zero.
\<close>

theorem quality_scaling_clamps_argument:
  "jpeg_quality_scaling q = jpeg_quality_scaling (min (max q 1) 100)
   \<and> (\<exists>s. jpeg_quality_scaling q = Inr s)"
  by (auto simp: jpeg_quality_scaling_def c_div_def Let_def)

section \<open>Properties: restart resynchronisation\<close>

lemma and_7_mod: "(x::int) AND 7 = x mod 8"
proof -
  have "x AND mask 3 = take_bit 3 x" by (rule take_bit_eq_mask[symmetric])
  then show ?thesis by (simp add: take_bit_eq_mod mask_eq_exp_minus_1)
qed

lemma rst_ahead_iff:
  assumes "0 \<le> k" "k < 8"
  shows "k = (d + c) mod 8 \<longleftrightarrow> (k - d) mod 8 = c mod (8::int)"
proof -
  have "k = (d + c) mod 8 \<longleftrightarrow> k mod 8 = (d + c) mod 8"
    using assms by simp
  also have "\<dots> \<longleftrightarrow> 8 dvd k - (d + c)"
    by (rule mod_eq_dvd_iff)
  also have "k - (d + c) = (k - d) - c"
    by simp
  also have "8 dvd (k - d) - c \<longleftrightarrow> (k - d) mod 8 = c mod 8"
    by (rule mod_eq_dvd_iff[symmetric])
  finally show ?thesis .
qed

lemma resync_action_table:
  assumes "0 \<le> desired" "desired \<le> 7"
  shows "resync_action m desired =
     (if m < 0xC0 then 2
      else if m < 0xD0 \<or> 0xD7 < m then 3
      else if (m - 0xD0 - desired) mod 8 = 1 \<or> (m - 0xD0 - desired) mod 8 = 2 then 3
      else if (m - 0xD0 - desired) mod 8 = 7 \<or> (m - 0xD0 - desired) mod 8 = 6 then 2
      else 1)"
proof (cases "0xD0 \<le> m \<and> m \<le> 0xD7")
  case False
  then have "m < 0xC0 \<or> (\<not> m < 0xC0 \<and> (m < 0xD0 \<or> 0xD7 < m))" by linarith
  then show ?thesis
    unfolding resync_action_def and_7_mod M_SOF0_def M_RST0_def M_RST7_def
    by (elim disjE conjE) (simp_all only: if_True if_False simp_thms)
next
  case True
  define k where "k = m - 0xD0"
  have k: "0 \<le> k" "k < 8" using True by (simp_all add: k_def)
  have e: "m = 0xD0 + x \<longleftrightarrow> k = x" for x by (auto simp: k_def)
  have a: "k = (desired + 1) mod 8 \<longleftrightarrow> (k - desired) mod 8 = 1"
    using rst_ahead_iff[OF k, of desired 1] by simp
  have b: "k = (desired + 2) mod 8 \<longleftrightarrow> (k - desired) mod 8 = 2"
    using rst_ahead_iff[OF k, of desired 2] by simp
  have c: "k = (desired - 1) mod 8 \<longleftrightarrow> (k - desired) mod 8 = 7"
    using rst_ahead_iff[OF k, of desired "-1"] by simp
  have d: "k = (desired - 2) mod 8 \<longleftrightarrow> (k - desired) mod 8 = 6"
    using rst_ahead_iff[OF k, of desired "-2"] by simp
  have m: "\<not> m < 0xC0" "\<not> (m < 0xD0 \<or> 0xD7 < m)" using True by simp_all
  have kd: "m - 0xD0 - desired = k - desired" by (simp add: k_def)
  show ?thesis
    unfolding resync_action_def and_7_mod M_SOF0_def M_RST0_def M_RST7_def e a b c d kd
    using m by (simp only: if_True if_False simp_thms)
qed

text \<open>
  C2, as the code has it. With \<open>ahead\<close> the number of counts (modulo 8) by which the
  found restart marker is ahead of the desired one, \<^verbatim>\<open>jpeg_resync_to_restart\<close> records
  its warning and then: scans forward to the next marker and decides again when the found
  byte is below 0xC0 or is a restart marker one or two counts behind (\<open>ahead\<close> is 7
  or 6); returns with the marker left unread and no input consumed when it is any other
  valid non-restart marker or a restart marker one or two counts ahead; discards the
  marker and returns when it is a restart marker further away.
\<close>

theorem resync_decision_table:
  assumes "0 \<le> desired" "desired \<le> 7"
  shows "jpeg_resync_to_restart st desired =
     (let m = unread_marker st;
          ahead = (m - 0xD0 - desired) mod 8;
          st1 = st\<lparr>warnings := warnings st @ [JWRN_MUST_RESYNC m desired]\<rparr>;
          scan_forward = (case next_marker st1 of
                            (False, st') \<Rightarrow> (False, st')
                          | (True, st') \<Rightarrow> resync_loop st' (unread_marker st') desired)
      in if m < 0xC0 then scan_forward
         else if m < 0xD0 \<or> 0xD7 < m then (True, st1)
         else if ahead = 1 \<or> ahead = 2 then (True, st1)
         else if ahead = 7 \<or> ahead = 6 then scan_forward
         else (True, st1\<lparr>unread_marker := 0\<rparr>))"
  unfolding jpeg_resync_to_restart_def
  by (subst resync_loop.simps) (simp add: resync_action_table[OF assms] Let_def)

theorem resync_decision_table_witness:
  "(0::int) \<le> 0 \<and> (0::int) \<le> 7 \<and>
   jpeg_resync_to_restart
     \<lparr>src_bytes = [0xFF, 0xD0], unread_marker = 0xD7, discarded_bytes = 0,
        next_restart_num = 0, warnings = []\<rparr> 0
   = (True, \<lparr>src_bytes = [], unread_marker = 0, discarded_bytes = 0,
              next_restart_num = 0, warnings = [JWRN_MUST_RESYNC 0xD7 0]\<rparr>)"
  using resync_decision_table
    [of 0 "\<lparr>src_bytes = [0xFF, 0xD0], unread_marker = 0xD7, discarded_bytes = 0,
              next_restart_num = 0, warnings = []\<rparr>"]
  by (simp add: next_marker_def next_marker_found_def resync_action_def
      M_SOF0_def M_RST0_def M_RST7_def resync_loop.simps)

text \<open>
  The claim as written fails for a restart marker ahead of the desired one: with RST0
  desired and RST1 found, nothing is scanned; the source is untouched and the marker
  stays unread.
\<close>

theorem resync_restart_ahead_counterexample:
  "resync_action 0xD1 0 \<noteq> 2 \<and>
   jpeg_resync_to_restart
     \<lparr>src_bytes = [0x12, 0xFF, 0xD0], unread_marker = 0xD1, discarded_bytes = 0,
        next_restart_num = 0, warnings = []\<rparr> 0
   = (True, \<lparr>src_bytes = [0x12, 0xFF, 0xD0], unread_marker = 0xD1, discarded_bytes = 0,
              next_restart_num = 0, warnings = [JWRN_MUST_RESYNC 0xD1 0]\<rparr>)"
  by code_simp

section \<open>Properties: restart sections\<close>

lemma u32_id: "0 \<le> x \<Longrightarrow> x < 2 ^ 32 \<Longrightarrow> u32 x = x"
  unfolding u32_def by (simp add: take_bit_int_eq_self)

lemma quality_scaling_total: "\<exists>s. jpeg_quality_scaling q = Inr s"
  by (auto simp: jpeg_quality_scaling_def c_div_def Let_def)

lemma jpeg_add_quant_table_frame:
  assumes "global_state c = CSTATE_START" "0 \<le> w" "w < 4"
  shows "\<exists>X. jpeg_add_quant_table c w b s f = Inr (c\<lparr>quant_tbl_ptrs := X\<rparr>)"
  using assms by (simp add: jpeg_add_quant_table_def Let_def NUM_QUANT_TBLS_def) blast

lemma jpeg_set_quality_frame:
  assumes "global_state c = CSTATE_START"
  shows "\<exists>X. jpeg_set_quality c q f = Inr (c\<lparr>quant_tbl_ptrs := X\<rparr>)"
proof -
  obtain s where s: "jpeg_quality_scaling q = Inr s"
    using quality_scaling_total by blast
  obtain X where X: "jpeg_add_quant_table c 0 std_luminance_quant_tbl s f
                       = Inr (c\<lparr>quant_tbl_ptrs := X\<rparr>)"
    using jpeg_add_quant_table_frame[OF assms, of 0 std_luminance_quant_tbl s f] by auto
  obtain Y where Y: "jpeg_add_quant_table (c\<lparr>quant_tbl_ptrs := X\<rparr>) 1
                       std_chrominance_quant_tbl s f
                       = Inr (c\<lparr>quant_tbl_ptrs := X\<rparr>\<lparr>quant_tbl_ptrs := Y\<rparr>)"
    using jpeg_add_quant_table_frame[of "c\<lparr>quant_tbl_ptrs := X\<rparr>" 1
            std_chrominance_quant_tbl s f] assms by auto
  show ?thesis
    by (simp add: jpeg_set_quality_def jpeg_set_linear_quality_def s X Y) blast
qed

lemma replicate_10: "replicate (nat MAX_COMPONENTS) x = [x, x, x, x, x, x, x, x, x, x]"
  by (simp add: MAX_COMPONENTS_def numeral_eq_Suc)

lemma set_restart_sections_quant:
  "set_restart_sections (c\<lparr>quant_tbl_ptrs := X\<rparr>) n
     = map_sum (\<lambda>e. e) (\<lambda>c'. c'\<lparr>quant_tbl_ptrs := X\<rparr>) (set_restart_sections c n)"
  by (simp add: set_restart_sections_def err_bind_def Let_def split: sum.splits)


text \<open>
  C8. \<^verbatim>\<open>jsc_compress\<close> passes \<open>height / 64\<close> sections on, but
  \<^verbatim>\<open>set_restart_sections\<close> derives the number of iMCU rows from the image width, not
  from the image height. For a grayscale image 8 pixels wide and 128 pixels high (one
  component with vertical sampling factor 1, two sections) the code sets
  \<^verbatim>\<open>restart_in_rows\<close> to 1, while the 16 iMCU rows of the image divided into two
  sections give 8.
\<close>

theorem restart_sections_from_image_width:
  "\<exists>cinfo. jsc_compress_params
      \<lparr>height = 128, width = 8, n_components = 1, color_space = JCS_GRAYSCALE, data = []\<rparr> 75
      = Inr cinfo \<and> restart_in_rows cinfo = 1 \<and> image_height cinfo = 128
        \<and> num_components cinfo = 1 \<and> map v_samp_factor (take 1 (comp_info cinfo)) = [1]
        \<and> spec_restart_in_rows 128 1 (128 div 64) = 8"
proof -
  define c0 where "c0 = jpeg_create_compress
     \<lparr>image_width := 8, image_height := 128, input_components := 1,
      in_color_space := JCS_GRAYSCALE\<rparr>"
  define c2 where "c2 = c0\<lparr>comp_info := replicate (nat MAX_COMPONENTS) zero_component,
      data_precision := BITS_IN_JSAMPLE\<rparr>"
  have g0: "global_state c2 = CSTATE_START"
    by (simp add: c2_def c0_def jpeg_create_compress_def)
  obtain X where X: "jpeg_set_quality c2 75 True = Inr (c2\<lparr>quant_tbl_ptrs := X\<rparr>)"
    using jpeg_set_quality_frame[OF g0] by blast
  define c3 where "c3 = c2\<lparr>quant_tbl_ptrs := X, restart_interval := 0, restart_in_rows := 0,
      num_components := 1,
      comp_info := (replicate (nat MAX_COMPONENTS) zero_component)
        [0 := zero_component\<lparr>component_id := 1, h_samp_factor := 1, v_samp_factor := 1,
                quant_tbl_no := 0, dc_tbl_no := 0, ac_tbl_no := 0\<rparr>],
      jpeg_color_space := JCS_GRAYSCALE\<rparr>"
  have c0: "global_state c0 = CSTATE_START" "comp_info c0 = []"
    by (simp_all add: c0_def jpeg_create_compress_def)
  have d1: "jpeg_set_defaults c0 = err_bind (jpeg_set_quality c2 75 True)
             (\<lambda>c. jpeg_default_colorspace (c\<lparr>restart_interval := 0, restart_in_rows := 0\<rparr>))"
    by (simp add: jpeg_set_defaults_def Let_def c0 c2_def)
  have d2: "jpeg_default_colorspace
              (c2\<lparr>quant_tbl_ptrs := X, restart_interval := 0, restart_in_rows := 0\<rparr>) = Inr c3"
    by (simp add: c2_def c0_def c3_def jpeg_create_compress_def jpeg_default_colorspace_def
        jpeg_set_colorspace_def err_bind_def jpeg_set_comp_def replicate_10
        MAX_COMPONENTS_def MAX_SAMP_FACTOR_def NUM_QUANT_TBLS_def NUM_HUFF_TBLS_def)
  have d: "jpeg_set_defaults c0 = Inr c3"
    by (simp add: d1 X err_bind_def d2)
  have g3: "global_state c3 = CSTATE_START"
    by (simp add: c3_def c2_def c0_def jpeg_create_compress_def)
  obtain Y where Y: "jpeg_set_quality c3 75 True = Inr (c3\<lparr>quant_tbl_ptrs := Y\<rparr>)"
    using jpeg_set_quality_frame[OF g3] by blast
  have r: "set_restart_sections c3 2 = Inr (c3\<lparr>restart_in_rows := 1\<rparr>)"
    by (simp add: set_restart_sections_def c3_def c2_def c0_def jpeg_create_compress_def
        replicate_10 err_bind_def MAX_COMPS_IN_SCAN_def MAX_SAMP_FACTOR_def
        jdiv_round_up_def DCTSIZE_def s32_id u32_id trunc_div_nonneg Let_def)
  have "jsc_compress_params
      \<lparr>height = 128, width = 8, n_components = 1, color_space = JCS_GRAYSCALE, data = []\<rparr> 75
      = Inr (c3\<lparr>restart_in_rows := 1, quant_tbl_ptrs := Y\<rparr>)"
    by (simp add: jsc_compress_params_def jsc_compress_rst_params_def Let_def DCTSIZE2_def
        trunc_div_nonneg s32_id c0_def[symmetric] d Y err_bind_def set_restart_sections_quant r)
  then show ?thesis
    by (simp add: c3_def c2_def c0_def jpeg_create_compress_def replicate_10 zero_component_def
        spec_restart_in_rows_def spec_iMCU_rows_def spec_ceil_div_def)
qed

section \<open>Properties: image dimensions\<close>

lemma jdiv_round_up_ok: "0 \<le> a \<Longrightarrow> 0 < b \<Longrightarrow> \<exists>r. jdiv_round_up a b = Inr r"
  by (simp add: jdiv_round_up_def)

lemma err_bind_Inr: "err_bind (Inr v) f = f v"
  by (simp add: err_bind_def)

lemma err_bind_Inl: "err_bind (Inl e) f = Inl e"
  by (simp add: err_bind_def)

lemma jcmaster_max_samp_factors_ok:
  assumes "list_all samp_factors_ok comps" "1 \<le> mh" "mh \<le> 4" "1 \<le> mv" "mv \<le> 4"
  shows "\<exists>h v. jcmaster_max_samp_factors mh mv comps = Inr (h, v)
           \<and> 1 \<le> h \<and> h \<le> 4 \<and> 1 \<le> v \<and> v \<le> 4"
  using assms
proof (induction comps arbitrary: mh mv)
  case Nil
  then show ?case by simp
next
  case (Cons c comps)
  from Cons.prems have c: "samp_factors_ok c" and cs: "list_all samp_factors_ok comps"
    by simp_all
  have "\<exists>h v. jcmaster_max_samp_factors (max mh (h_samp_factor c)) (max mv (v_samp_factor c)) comps
           = Inr (h, v) \<and> 1 \<le> h \<and> h \<le> 4 \<and> 1 \<le> v \<and> v \<le> 4"
    using c Cons.prems(2-5)
    by (intro Cons.IH[OF cs]) (auto simp: samp_factors_ok_def MAX_SAMP_FACTOR_def)
  then show ?case
    using c by (simp add: samp_factors_ok_def MAX_SAMP_FACTOR_def)
qed

lemma jdinput_max_samp_factors_ok:
  assumes "list_all samp_factors_ok comps" "1 \<le> mh" "mh \<le> 4" "1 \<le> mv" "mv \<le> 4"
  shows "\<exists>h v. jdinput_max_samp_factors mh mv comps = Inr (h, v)
           \<and> 1 \<le> h \<and> h \<le> 4 \<and> 1 \<le> v \<and> v \<le> 4"
  using assms
proof (induction comps arbitrary: mh mv)
  case Nil
  then show ?case by simp
next
  case (Cons c comps)
  from Cons.prems have c: "samp_factors_ok c" and cs: "list_all samp_factors_ok comps"
    by simp_all
  have "\<exists>h v. jdinput_max_samp_factors (max mh (h_samp_factor c)) (max mv (v_samp_factor c)) comps
           = Inr (h, v) \<and> 1 \<le> h \<and> h \<le> 4 \<and> 1 \<le> v \<and> v \<le> 4"
    using c Cons.prems(2-5)
    by (intro Cons.IH[OF cs]) (auto simp: samp_factors_ok_def MAX_SAMP_FACTOR_def)
  then show ?case
    using c by (simp add: samp_factors_ok_def MAX_SAMP_FACTOR_def)
qed

text \<open>A product of a dimension and small factors stays a non-negative 32-bit value.\<close>

lemma s32_small_product:
  assumes "0 \<le> w" "w \<le> 65535" "0 \<le> k" "k \<le> 32"
  shows "s32 (s32 w * k) = w * k" "0 \<le> w * k"
proof -
  have w: "s32 w = w" using assms by (intro s32_id) auto
  have "w * k \<le> 65535 * 32" using assms by (intro mult_mono) auto
  moreover show "0 \<le> w * k" using assms by simp
  ultimately show "s32 (s32 w * k) = w * k" unfolding w by (intro s32_id) auto
qed

lemma s32_small: "0 \<le> k \<Longrightarrow> k \<le> 65535 \<Longrightarrow> s32 k = k"
  by (intro s32_id) auto

lemma jcmaster_component_dimensions_ok:
  assumes "0 \<le> jpeg_width cinfo" "jpeg_width cinfo \<le> 65535"
    "0 \<le> jpeg_height cinfo" "jpeg_height cinfo \<le> 65535"
    "samp_factors_ok compptr" "block_size cinfo = 8"
    "min_DCT_h_scaled_size cinfo = 8" "min_DCT_v_scaled_size cinfo = 8"
    "1 \<le> max_h_samp_factor cinfo" "max_h_samp_factor cinfo \<le> 4"
    "1 \<le> max_v_samp_factor cinfo" "max_v_samp_factor cinfo \<le> 4"
  shows "\<exists>c. jcmaster_component_dimensions cinfo ci compptr = Inr c"
proof -
  have hv: "0 \<le> h_samp_factor compptr" "h_samp_factor compptr \<le> 4"
       "0 \<le> v_samp_factor compptr" "v_samp_factor compptr \<le> 4"
    using assms(5) by (simp_all add: samp_factors_ok_def MAX_SAMP_FACTOR_def)
  have b1: "s32 (max_h_samp_factor cinfo * block_size cinfo) = max_h_samp_factor cinfo * 8"
    using assms by (simp add: s32_small)
  have b2: "s32 (max_v_samp_factor cinfo * block_size cinfo) = max_v_samp_factor cinfo * 8"
    using assms by (simp add: s32_small)
  have h8: "s32 (h_samp_factor compptr * 8) = h_samp_factor compptr * 8"
    using hv by (simp add: s32_small)
  have v8: "s32 (v_samp_factor compptr * 8) = v_samp_factor compptr * 8"
    using hv by (simp add: s32_small)
  have p1: "0 \<le> s32 (s32 (jpeg_width cinfo) * h_samp_factor compptr)"
    using s32_small_product[OF assms(1,2), of "h_samp_factor compptr"] hv by simp
  have p2: "0 \<le> s32 (s32 (jpeg_height cinfo) * v_samp_factor compptr)"
    using s32_small_product[OF assms(3,4), of "v_samp_factor compptr"] hv by simp
  have p3: "0 \<le> s32 (s32 (jpeg_width cinfo) * (h_samp_factor compptr * 8))"
    using s32_small_product[OF assms(1,2), of "h_samp_factor compptr * 8"] hv by simp
  have p4: "0 \<le> s32 (s32 (jpeg_height cinfo) * (v_samp_factor compptr * 8))"
    using s32_small_product[OF assms(3,4), of "v_samp_factor compptr * 8"] hv by simp
  show ?thesis
    unfolding jcmaster_component_dimensions_def Let_def b1 b2
    using assms(7-12) p1 p2 p3 p4
    by (simp add: h8 v8 jdiv_round_up_def err_bind_def)
qed

lemma jcmaster_all_dimensions_ok:
  assumes "0 \<le> jpeg_width cinfo" "jpeg_width cinfo \<le> 65535"
    "0 \<le> jpeg_height cinfo" "jpeg_height cinfo \<le> 65535"
    "list_all samp_factors_ok comps" "block_size cinfo = 8"
    "min_DCT_h_scaled_size cinfo = 8" "min_DCT_v_scaled_size cinfo = 8"
    "1 \<le> max_h_samp_factor cinfo" "max_h_samp_factor cinfo \<le> 4"
    "1 \<le> max_v_samp_factor cinfo" "max_v_samp_factor cinfo \<le> 4"
  shows "\<exists>cs. jcmaster_all_dimensions cinfo ci comps = Inr cs"
  using assms(5)
proof (induction comps arbitrary: ci)
  case Nil
  then show ?case by simp
next
  case (Cons c comps)
  then have c: "samp_factors_ok c" and cs: "list_all samp_factors_ok comps" by simp_all
  obtain c' where "jcmaster_component_dimensions cinfo ci c = Inr c'"
    using jcmaster_component_dimensions_ok[OF assms(1-4) c assms(6-12)] by blast
  moreover obtain cs' where "jcmaster_all_dimensions cinfo (ci + 1) comps = Inr cs'"
    using Cons.IH[OF cs] by blast
  ultimately show ?case by (simp add: err_bind_def)
qed


lemma jcmaster_initial_setup_accepts:
  assumes ok: "compress_params_ok cinfo"
    and dims: "1 \<le> jpeg_width cinfo" "jpeg_width cinfo \<le> 65500"
              "1 \<le> jpeg_height cinfo" "jpeg_height cinfo \<le> 65500"
  shows "\<exists>c. jcmaster_initial_setup cinfo = Inr c"
proof -
  define cinfo' where "cinfo' = cinfo\<lparr>lim_Se := DCTSIZE2 - 1\<rparr>"
  define comps where "comps = take (nat (num_components cinfo)) (comp_info cinfo)"
  have cs: "list_all samp_factors_ok comps"
    using ok by (simp add: compress_params_ok_def comps_def)
  obtain mh mv where m: "jcmaster_max_samp_factors 1 1 comps = Inr (mh, mv)"
      "1 \<le> mh" "mh \<le> 4" "1 \<le> mv" "mv \<le> 4"
    using jcmaster_max_samp_factors_ok[OF cs, of 1 1] by auto
  define cinfo1 where "cinfo1 = cinfo'\<lparr>max_h_samp_factor := mh, max_v_samp_factor := mv\<rparr>"
  have "\<exists>cs. jcmaster_all_dimensions cinfo1 0 comps = Inr cs"
    using ok dims m(2-5) cs
    by (intro jcmaster_all_dimensions_ok)
       (simp_all add: cinfo1_def cinfo'_def compress_params_ok_def DCTSIZE_def)
  then obtain cs' where a: "jcmaster_all_dimensions cinfo1 0 comps = Inr cs'" by blast
  have "0 \<le> s32 (jpeg_height cinfo)" "0 < s32 (mv * 8)"
    using dims m(4,5) by (simp_all add: s32_small)
  then obtain r where r: "jdiv_round_up (s32 (jpeg_height cinfo)) (s32 (mv * 8)) = Inr r"
    using jdiv_round_up_ok by blast
  show ?thesis
    using ok dims
    by (simp add: jcmaster_initial_setup_def compress_params_ok_def Let_def DCTSIZE_def
        JPEG_MAX_DIMENSION_def cinfo'_def[unfolded DCTSIZE2_def, symmetric] DCTSIZE2_def
        comps_def[symmetric] m(1) err_bind_Inr cinfo1_def[symmetric])
       (simp add: cinfo1_def cinfo'_def comps_def[symmetric] a[unfolded cinfo1_def cinfo'_def DCTSIZE2_def, simplified]
        err_bind_Inr r)
qed

lemma jcmaster_initial_setup_rejects:
  assumes "jcmaster_initial_setup cinfo = Inr c"
  shows "1 \<le> jpeg_width cinfo \<and> jpeg_width cinfo \<le> 65500
       \<and> 1 \<le> jpeg_height cinfo \<and> jpeg_height cinfo \<le> 65500"
  using assms
  by (simp add: jcmaster_initial_setup_def Let_def JPEG_MAX_DIMENSION_def split: if_splits)


lemma jdinput_component_dimensions_ok:
  assumes "0 \<le> d_image_width cinfo" "d_image_width cinfo \<le> 65535"
    "0 \<le> d_image_height cinfo" "d_image_height cinfo \<le> 65535"
    "samp_factors_ok compptr" "d_block_size cinfo = 8"
    "1 \<le> d_max_h_samp_factor cinfo" "d_max_h_samp_factor cinfo \<le> 4"
    "1 \<le> d_max_v_samp_factor cinfo" "d_max_v_samp_factor cinfo \<le> 4"
  shows "\<exists>c. jdinput_component_dimensions cinfo compptr = Inr c"
proof -
  have hv: "0 \<le> h_samp_factor compptr" "h_samp_factor compptr \<le> 4"
       "0 \<le> v_samp_factor compptr" "v_samp_factor compptr \<le> 4"
    using assms(5) by (simp_all add: samp_factors_ok_def MAX_SAMP_FACTOR_def)
  have b1: "s32 (d_max_h_samp_factor cinfo * d_block_size cinfo) = d_max_h_samp_factor cinfo * 8"
    using assms by (simp add: s32_small)
  have b2: "s32 (d_max_v_samp_factor cinfo * d_block_size cinfo) = d_max_v_samp_factor cinfo * 8"
    using assms by (simp add: s32_small)
  have p1: "0 \<le> s32 (s32 (d_image_width cinfo) * h_samp_factor compptr)"
    using s32_small_product[OF assms(1,2), of "h_samp_factor compptr"] hv by simp
  have p2: "0 \<le> s32 (s32 (d_image_height cinfo) * v_samp_factor compptr)"
    using s32_small_product[OF assms(3,4), of "v_samp_factor compptr"] hv by simp
  show ?thesis
    unfolding jdinput_component_dimensions_def b1 b2
    using assms(7-10) p1 p2
    by (simp add: jdiv_round_up_def err_bind_def)
qed

lemma jdinput_all_dimensions_ok:
  assumes "0 \<le> d_image_width cinfo" "d_image_width cinfo \<le> 65535"
    "0 \<le> d_image_height cinfo" "d_image_height cinfo \<le> 65535"
    "list_all samp_factors_ok comps" "d_block_size cinfo = 8"
    "1 \<le> d_max_h_samp_factor cinfo" "d_max_h_samp_factor cinfo \<le> 4"
    "1 \<le> d_max_v_samp_factor cinfo" "d_max_v_samp_factor cinfo \<le> 4"
  shows "\<exists>cs. jdinput_all_dimensions cinfo comps = Inr cs"
  using assms(5)
proof (induction comps)
  case Nil
  then show ?case by simp
next
  case (Cons c comps)
  then have c: "samp_factors_ok c" and cs: "list_all samp_factors_ok comps" by simp_all
  obtain c' where "jdinput_component_dimensions cinfo c = Inr c'"
    using jdinput_component_dimensions_ok[OF assms(1-4) c assms(6-10)] by blast
  moreover obtain cs' where "jdinput_all_dimensions cinfo comps = Inr cs'"
    using Cons.IH[OF cs] by blast
  ultimately show ?case by (simp add: err_bind_def)
qed

lemma jdinput_initial_setup_accepts:
  assumes ok: "decompress_params_ok cinfo"
    and dims: "d_image_width cinfo \<le> 65500" "d_image_height cinfo \<le> 65500"
  shows "\<exists>c. jdinput_initial_setup cinfo = Inr c"
proof -
  define comps where "comps = take (nat (d_num_components cinfo)) (d_comp_info cinfo)"
  have nn: "0 \<le> d_image_width cinfo" "0 \<le> d_image_height cinfo"
    using ok by (simp_all add: decompress_params_ok_def)
  have cs: "list_all samp_factors_ok comps"
    using ok by (simp add: decompress_params_ok_def comps_def)
  obtain mh mv where m: "jdinput_max_samp_factors 1 1 comps = Inr (mh, mv)"
      "1 \<le> mh" "mh \<le> 4" "1 \<le> mv" "mv \<le> 4"
    using jdinput_max_samp_factors_ok[OF cs, of 1 1] by auto
  define cinfo1 where "cinfo1 = cinfo\<lparr>d_max_h_samp_factor := mh, d_max_v_samp_factor := mv,
                                  d_block_size := 8, d_lim_Se := 64 - 1,
                                  d_min_DCT_h_scaled_size := 8,
                                  d_min_DCT_v_scaled_size := 8\<rparr>"
  have "\<exists>cs. jdinput_all_dimensions cinfo1 comps = Inr cs"
    using nn dims m(2-5) cs
    by (intro jdinput_all_dimensions_ok) (simp_all add: cinfo1_def)
  then obtain cs' where a: "jdinput_all_dimensions cinfo1 comps = Inr cs'" by blast
  have "0 \<le> s32 (d_image_height cinfo)" "0 < s32 (mv * 8)"
    using nn dims m(4,5) by (simp_all add: s32_small)
  then obtain r where r: "jdiv_round_up (s32 (d_image_height cinfo)) (s32 (mv * 8)) = Inr r"
    using jdiv_round_up_ok by blast
  have w: "s32 (d_image_width cinfo) = d_image_width cinfo"
    and h: "s32 (d_image_height cinfo) = d_image_height cinfo"
    using nn dims by (simp_all add: s32_small)
  show ?thesis
    using ok dims
    by (simp add: jdinput_initial_setup_def decompress_params_ok_def Let_def DCTSIZE_def
        DCTSIZE2_def JPEG_MAX_DIMENSION_def MAX_COMPONENTS_def w h
        comps_def[symmetric] m(1) err_bind_Inr cinfo1_def[simplified, symmetric])
       (simp add: cinfo1_def comps_def[symmetric] a[unfolded cinfo1_def, simplified]
        err_bind_Inr r[unfolded h])
qed

lemma jdinput_initial_setup_rejects:
  assumes "jdinput_initial_setup cinfo = Inr c"
    and "0 \<le> d_image_width cinfo" "d_image_width cinfo < 2 ^ 16"
        "0 \<le> d_image_height cinfo" "d_image_height cinfo < 2 ^ 16"
  shows "d_image_width cinfo \<le> 65500 \<and> d_image_height cinfo \<le> 65500"
proof -
  have w: "s32 (d_image_width cinfo) = d_image_width cinfo"
    and h: "s32 (d_image_height cinfo) = d_image_height cinfo"
    using assms(2-5) by (simp_all add: s32_small)
  show ?thesis
    using assms(1)
    by (simp add: jdinput_initial_setup_def JPEG_MAX_DIMENSION_def w h split: if_splits)
qed


lemma two_bytes_value:
  "u32 (u32 (push_bit 8 (uint (a :: 8 word))) + uint (b :: 8 word)) = 256 * uint a + uint b"
proof -
  have a: "0 \<le> uint a" "uint a < 256" and b: "0 \<le> uint b" "uint b < 256"
    using uint_lt2p[of a] uint_lt2p[of b] by simp_all
  have p: "push_bit 8 (uint a) = 256 * uint a" by (simp add: push_bit_eq_mult)
  have "u32 (256 * uint a) = 256 * uint a" using a by (intro u32_id) auto
  moreover have "u32 (256 * uint a + uint b) = 256 * uint a + uint b"
    using a b by (intro u32_id) auto
  ultimately show ?thesis by (simp add: p)
qed

lemma get_sof_header_dimensions:
  assumes "d_src cinfo = l1 # l2 # p # h1 # h2 # w1 # w2 # n # rest" "\<not> d_saw_SOF cinfo"
  shows "case get_sof_header cinfo True False False of (ok, cinfo') \<Rightarrow>
           d_image_height cinfo' = 256 * uint h1 + uint h2 \<and>
           d_image_width cinfo' = 256 * uint w1 + uint w2 \<and>
           (if d_image_height cinfo' = 0 \<or> d_image_width cinfo' = 0
            then \<not> ok \<and> d_warned cinfo' = d_warned cinfo @ [JERR_EMPTY_IMAGE]
            else True)"
proof -
  have nn: "0 \<le> uint h1" "0 \<le> uint h2" "0 \<le> uint w1" "0 \<le> uint w2" by simp_all
  then have z: "256 * uint h1 + uint h2 \<le> 0 \<longleftrightarrow> 256 * uint h1 + uint h2 = 0"
     "256 * uint w1 + uint w2 \<le> 0 \<longleftrightarrow> 256 * uint w1 + uint w2 = 0"
    by linarith+
  show ?thesis
    using assms
    by (simp add: get_sof_header_def Let_def two_bytes_value z)
qed

lemma s32_u32_s32: "s32 (u32 (s32 x)) = s32 x"
  by (simp add: s32_def u32_def signed_take_bit_take_bit)

lemma jcmaster_initial_setup_asserts:
  assumes "block_size cinfo = DCTSIZE"
    and "\<not> (1 \<le> jpeg_width cinfo \<and> jpeg_width cinfo \<le> 65500
            \<and> 1 \<le> jpeg_height cinfo \<and> jpeg_height cinfo \<le> 65500)"
  shows "jcmaster_initial_setup cinfo = Inl Assert_failed"
  using assms
  by (auto simp add: jcmaster_initial_setup_def Let_def JPEG_MAX_DIMENSION_def DCTSIZE_def)

lemma jdinput_initial_setup_asserts:
  assumes "0 \<le> d_image_width cinfo" "d_image_width cinfo < 2 ^ 16"
        "0 \<le> d_image_height cinfo" "d_image_height cinfo < 2 ^ 16"
    and "\<not> (d_image_width cinfo \<le> 65500 \<and> d_image_height cinfo \<le> 65500)"
  shows "jdinput_initial_setup cinfo = Inl Assert_failed"
proof -
  have w: "s32 (d_image_width cinfo) = d_image_width cinfo"
    and h: "s32 (d_image_height cinfo) = d_image_height cinfo"
    using assms(1-4) by (simp_all add: s32_small)
  show ?thesis
    using assms(5)
    by (auto simp add: jdinput_initial_setup_def JPEG_MAX_DIMENSION_def w h)
qed

lemma jinit_compress_master_checks_accepts:
  assumes ok: "compress_input_ok cinfo"
    and dims: "1 \<le> image_width cinfo" "image_width cinfo \<le> 65500"
              "1 \<le> image_height cinfo" "image_height cinfo \<le> 65500"
  shows "\<exists>c. jinit_compress_master_checks cinfo = Inr c"
proof -
  define c1 where "c1 = cinfo\<lparr>jpeg_width := image_width cinfo, jpeg_height := image_height cinfo,
                        min_DCT_h_scaled_size := DCTSIZE, min_DCT_v_scaled_size := DCTSIZE\<rparr>"
  have w: "s32 (image_width cinfo) = image_width cinfo"
    and h: "s32 (image_height cinfo) = image_height cinfo"
    using dims by (simp_all add: s32_id)
  have "drop_bit 24 (image_width cinfo) = 0" "drop_bit 24 (image_height cinfo) = 0"
    using dims by (simp_all add: drop_bit_eq_div)
  then have calc: "jpeg_calc_jpeg_dimensions cinfo = Inr c1"
    by (simp add: jpeg_calc_jpeg_dimensions_def w h c1_def)
  have "compress_params_ok c1"
    using ok dims by (simp add: compress_input_ok_def compress_params_ok_def c1_def
        BITS_IN_JSAMPLE_def)
  then obtain c where c: "jcmaster_initial_setup c1 = Inr c"
    using jcmaster_initial_setup_accepts[of c1] dims by (auto simp add: c1_def)
  have "jinit_compress_master_checks cinfo = Inr c"
    using ok dims
    by (simp add: jinit_compress_master_checks_def compress_input_ok_def Let_def s32_u32_s32
        calc err_bind_def c)
  then show ?thesis by blast
qed

lemma jinit_compress_master_checks_asserts:
  assumes ok: "compress_input_ok cinfo"
    and dims: "\<not> (1 \<le> image_width cinfo \<and> image_width cinfo \<le> 65500
            \<and> 1 \<le> image_height cinfo \<and> image_height cinfo \<le> 65500)"
  shows "jinit_compress_master_checks cinfo = Inl Assert_failed"
proof (cases "jpeg_calc_jpeg_dimensions cinfo")
  case (Inl e)
  then have "e = Assert_failed"
    by (simp add: jpeg_calc_jpeg_dimensions_def split: if_splits)
  with Inl show ?thesis
    by (simp add: jinit_compress_master_checks_def Let_def err_bind_def)
next
  case (Inr c1)
  then have c1: "c1 = cinfo\<lparr>jpeg_width := image_width cinfo, jpeg_height := image_height cinfo,
                        min_DCT_h_scaled_size := DCTSIZE, min_DCT_v_scaled_size := DCTSIZE\<rparr>"
    by (simp add: jpeg_calc_jpeg_dimensions_def split: if_splits)
  show ?thesis
  proof (cases "image_height cinfo > 0 \<and> image_width cinfo > 0")
    case False
    then show ?thesis
      by (auto simp add: jinit_compress_master_checks_def Let_def)
  next
    case True
    have "jcmaster_initial_setup c1 = Inl Assert_failed"
      using ok dims True
      by (intro jcmaster_initial_setup_asserts) (auto simp add: c1 compress_input_ok_def)
    then show ?thesis
      by (simp add: jinit_compress_master_checks_def Let_def err_bind_def Inr)
  qed
qed


lemma get_sof_header_result:
  assumes "d_src cinfo = l1 # l2 # p # h1 # h2 # w1 # w2 # n # rest" "\<not> d_saw_SOF cinfo"
    and len: "256 * uint l1 + uint l2 = 8 + 3 * uint n" and p: "uint p = 8"
    and n: "0 < uint n"
    and mem: "u32 (JSC_WORKING_MEM_SIZE (uint n) (256 * uint w1 + uint w2)) \<le> d_mem_size cinfo"
  shows "get_sof_header cinfo True False False =
     (let H = 256 * uint h1 + uint h2;
          W = 256 * uint w1 + uint w2;
          cinfo' = cinfo\<lparr>d_is_baseline := True, d_data_precision := 8, d_image_height := H,
                          d_image_width := W, d_num_components := uint n\<rparr>
      in if H = 0 \<or> W = 0
         then (False, cinfo'\<lparr>d_warned := d_warned cinfo @ [JERR_EMPTY_IMAGE]\<rparr>)
         else (True, cinfo'))"
proof -
  have nn: "0 \<le> uint h1" "0 \<le> uint h2" "0 \<le> uint w1" "0 \<le> uint w2" by simp_all
  then have z: "256 * uint h1 + uint h2 \<le> 0 \<longleftrightarrow> 256 * uint h1 + uint h2 = 0"
     "256 * uint w1 + uint w2 \<le> 0 \<longleftrightarrow> 256 * uint w1 + uint w2 = 0"
    by linarith+
  have n8: "uint n < 256" using uint_lt2p[of n] by simp
  have l0: "u32 (push_bit 8 (uint l1)) + uint l2 = 8 + 3 * uint n"
  proof -
    have a: "0 \<le> uint l1" "uint l1 < 256" using uint_lt2p[of l1] by simp_all
    have "u32 (256 * uint l1) = 256 * uint l1" using a by (intro u32_id) auto
    then show ?thesis using len by (simp add: push_bit_eq_mult mult.commute)
  qed
  have l1: "s32 (s32 (8 + 3 * uint n) - 8) = s32 (uint n * 3)"
  proof -
    have "s32 (8 + 3 * uint n) = 8 + 3 * uint n" using n n8 by (intro s32_id) auto
    then show ?thesis by (simp add: mult.commute)
  qed
  have m: "\<not> d_mem_size cinfo < u32 (JSC_WORKING_MEM_SIZE (uint n) (256 * uint w1 + uint w2))"
    using mem by simp
  show ?thesis
    using assms(1,2) n
    by (simp add: get_sof_header_def Let_def two_bytes_value z l0 l1 p m BITS_IN_JSAMPLE_def)
qed


text \<open>
  C9, as the code has it. For an input image that is valid otherwise the compressor
  (\<^verbatim>\<open>jinit_compress_master\<close> up to the return of \<^verbatim>\<open>initial_setup\<close>) accepts the image
  when its width and its height are each at least 1 and at most 65500, and fails an
  assertion for every other image. In the decompressor \<^verbatim>\<open>get_sof\<close> stores the two
  16-bit dimensions of a segment that is valid otherwise; it records
  \<^verbatim>\<open>JERR_EMPTY_IMAGE\<close> and returns \<^verbatim>\<open>FALSE\<close> when one of them is zero, and records
  nothing and goes on for every other value, up to 65535: it has no upper limit.
  \<^verbatim>\<open>initial_setup\<close> of the decompressor accepts a frame when its width and height are
  each at most 65500 and fails an assertion for every other frame. So a frame 65501 to
  65535 wide or high is not refused with a warning: it ends decompression with a failed
  assertion.
\<close>

theorem image_dimension_limits:
  assumes "compress_input_ok cinfo" and "decompress_params_ok dinfo"
    and "d_src sinfo = l1 # l2 # p # h1 # h2 # w1 # w2 # n # rest" and "\<not> d_saw_SOF sinfo"
    and "256 * uint l1 + uint l2 = 8 + 3 * uint n" and "uint p = 8" and "0 < uint n"
    and "u32 (JSC_WORKING_MEM_SIZE (uint n) (256 * uint w1 + uint w2)) \<le> d_mem_size sinfo"
  shows "(if 1 \<le> image_width cinfo \<and> image_width cinfo \<le> 65500 \<and>
             1 \<le> image_height cinfo \<and> image_height cinfo \<le> 65500
          then \<exists>c. jinit_compress_master_checks cinfo = Inr c
          else jinit_compress_master_checks cinfo = Inl Assert_failed)
       \<and> (if d_image_width dinfo \<le> 65500 \<and> d_image_height dinfo \<le> 65500
          then \<exists>d. jdinput_initial_setup dinfo = Inr d
          else jdinput_initial_setup dinfo = Inl Assert_failed)
       \<and> get_sof_header sinfo True False False =
           (let H = 256 * uint h1 + uint h2;
                W = 256 * uint w1 + uint w2;
                sinfo' = sinfo\<lparr>d_is_baseline := True, d_data_precision := 8,
                                d_image_height := H, d_image_width := W,
                                d_num_components := uint n\<rparr>
            in if H = 0 \<or> W = 0
               then (False, sinfo'\<lparr>d_warned := d_warned sinfo @ [JERR_EMPTY_IMAGE]\<rparr>)
               else (True, sinfo'))"
proof (intro conjI)
  show "if 1 \<le> image_width cinfo \<and> image_width cinfo \<le> 65500 \<and>
             1 \<le> image_height cinfo \<and> image_height cinfo \<le> 65500
          then \<exists>c. jinit_compress_master_checks cinfo = Inr c
          else jinit_compress_master_checks cinfo = Inl Assert_failed"
    using jinit_compress_master_checks_accepts[OF assms(1)]
      jinit_compress_master_checks_asserts[OF assms(1)]
    by (simp only: split: if_split) blast
  have d: "0 \<le> d_image_width dinfo" "d_image_width dinfo < 2 ^ 16"
          "0 \<le> d_image_height dinfo" "d_image_height dinfo < 2 ^ 16"
    using assms(2) by (simp_all add: decompress_params_ok_def)
  show "if d_image_width dinfo \<le> 65500 \<and> d_image_height dinfo \<le> 65500
          then \<exists>d. jdinput_initial_setup dinfo = Inr d
          else jdinput_initial_setup dinfo = Inl Assert_failed"
    using jdinput_initial_setup_accepts[OF assms(2)] jdinput_initial_setup_asserts[OF d]
    by (simp only: split: if_split) blast
  show "get_sof_header sinfo True False False =
           (let H = 256 * uint h1 + uint h2;
                W = 256 * uint w1 + uint w2;
                sinfo' = sinfo\<lparr>d_is_baseline := True, d_data_precision := 8,
                                d_image_height := H, d_image_width := W,
                                d_num_components := uint n\<rparr>
            in if H = 0 \<or> W = 0
               then (False, sinfo'\<lparr>d_warned := d_warned sinfo @ [JERR_EMPTY_IMAGE]\<rparr>)
               else (True, sinfo'))"
    by (rule get_sof_header_result[OF assms(3-8)])
qed

lemma example_cinfo_ok: "compress_input_ok example_cinfo"
  by (simp add: compress_input_ok_def example_cinfo_def jpeg_create_compress_def
      DCTSIZE_def MAX_COMPONENTS_def samp_factors_ok_def zero_component_def MAX_SAMP_FACTOR_def
      BITS_IN_JSAMPLE_def)

lemma example_sof_header:
  "get_sof_header example_dinfo True False False
     = (True, example_dinfo\<lparr>d_is_baseline := True, d_data_precision := 8,
                             d_image_height := 480, d_image_width := 65501,
                             d_num_components := 1\<rparr>)"
  by (simp add: get_sof_header_def example_dinfo_def Let_def two_bytes_value s32_def u32_def
      BITS_IN_JSAMPLE_def JSC_WORKING_MEM_SIZE_def)

lemma example_frame_fields:
  "d_image_width example_frame = 65501" "d_image_height example_frame = 480"
  "d_warned example_frame = []"
  by (simp_all add: example_frame_def example_sof_header) (simp_all add: example_dinfo_def)

lemma example_frame_ok: "decompress_params_ok example_frame"
  by (simp add: example_frame_def example_sof_header)
     (simp add: decompress_params_ok_def example_dinfo_def
      MAX_COMPONENTS_def samp_factors_ok_def zero_component_def MAX_SAMP_FACTOR_def)

text \<open>
  The example: the compressor accepts the image of 640 by 480; the decompressor takes
  the SOF0 segment of the frame 65501 wide without a warning, and \<^verbatim>\<open>initial_setup\<close>
  then fails its assertion.
\<close>

theorem image_dimension_limits_witness:
  "compress_input_ok example_cinfo \<and> decompress_params_ok example_frame \<and>
   (\<exists>c. jinit_compress_master_checks example_cinfo = Inr c) \<and>
   get_sof_header example_dinfo True False False
     = (True, example_dinfo\<lparr>d_is_baseline := True, d_data_precision := 8,
                             d_image_height := 480, d_image_width := 65501,
                             d_num_components := 1\<rparr>) \<and>
   d_image_width example_frame = 65501 \<and> d_warned example_frame = [] \<and>
   jdinput_initial_setup example_frame = Inl Assert_failed"
proof -
  have s: "d_src example_dinfo
             = 0x00 # 0x0B # 0x08 # 0x01 # 0xE0 # 0xFF # 0xDD # 0x01 # [0x01, 0x11, 0x00]"
    and n: "\<not> d_saw_SOF example_dinfo"
    and m: "u32 (JSC_WORKING_MEM_SIZE (uint (0x01 :: 8 word))
                   (256 * uint (0xFF :: 8 word) + uint (0xDD :: 8 word)))
              \<le> d_mem_size example_dinfo"
    by (simp_all add: example_dinfo_def JSC_WORKING_MEM_SIZE_def u32_def)
  have v: "image_width example_cinfo = 640" "image_height example_cinfo = 480"
    by (simp_all add: example_cinfo_def jpeg_create_compress_def)
  show ?thesis
    using image_dimension_limits[OF example_cinfo_ok example_frame_ok s n _ _ _ m]
      example_cinfo_ok example_frame_ok
    by (simp add: v example_frame_fields)
qed

section \<open>Properties: output of the Huffman encoder\<close>

lemma framed_Cons_not_FF: "b \<noteq> 0xFF \<Longrightarrow> framed (b # bs) = framed bs"
  by (cases bs) auto

lemma framed_append: "framed xs \<Longrightarrow> framed ys \<Longrightarrow> framed (xs @ ys)"
proof (induction xs rule: framed.induct)
  case 1
  then show ?case by simp
next
  case (2 b)
  then show ?case by (simp add: framed_Cons_not_FF)
next
  case (3 b c rest)
  then show ?case by simp
qed

lemma keeps_refl: "keeps s s"
  by (simp add: keeps_def)

lemma keeps_trans: "keeps s s' \<Longrightarrow> keeps s' s'' \<Longrightarrow> keeps s s''"
  unfolding keeps_def
  by (metis (no_types, lifting) le_trans min.absorb1 take_take)

lemma grows_refl: "dest_ok (ws_dest s) \<Longrightarrow> grows s s"
  unfolding grows_def by (auto intro: exI[of _ "[]"])

lemma grows_trans: "grows s s' \<Longrightarrow> grows s' s'' \<Longrightarrow> grows s s''"
  unfolding grows_def using framed_append by fastforce

lemma keeps_cur_update: "keeps s (s'\<lparr>cur := c\<rparr>) = keeps s s'"
  by (simp add: keeps_def)

lemma grows_cur_update: "grows s (s'\<lparr>cur := c\<rparr>) = grows s s'"
  by (simp add: grows_def)

lemma emit_byte_s_keeps: "emit_byte_s s v = (ok, s') \<Longrightarrow> keeps s s'"
  by (auto simp: emit_byte_s_def keeps_def Let_def)

lemma emit_byte_s_cur: "emit_byte_s s v = (ok, s') \<Longrightarrow> cur s' = cur s"
  by (auto simp: emit_byte_s_def Let_def)

lemma emit_byte_s_written:
  assumes "dest_ok (ws_dest s)" "emit_byte_s s v = (True, s')"
  shows "dest_ok (ws_dest s')"
    and "written (ws_dest s') = written (ws_dest s) @ [word_of_int v]"
proof -
  define d where "d = ws_dest s"
  have f: "0 < free_in_buffer d" "free_in_buffer d < 2 ^ 32"
    and n: "next_output_byte d + nat (free_in_buffer d) = length (outbuf d)"
    using assms(1) by (simp_all add: dest_ok_def d_def)
  have u: "u32 (free_in_buffer d - 1) = free_in_buffer d - 1"
    using f by (intro u32_id) auto
  have lt: "next_output_byte d < length (outbuf d)" using f n by linarith
  have s': "ws_dest s' = d\<lparr>outbuf := (outbuf d)[next_output_byte d := word_of_int v],
                 next_output_byte := Suc (next_output_byte d),
                 free_in_buffer := free_in_buffer d - 1\<rparr>"
    and nz: "free_in_buffer d - 1 \<noteq> 0"
    using assms(2) by (auto simp: emit_byte_s_def Let_def d_def[symmetric] u)
  show "dest_ok (ws_dest s')"
    using f n nz by (simp add: s' dest_ok_def)
  show "written (ws_dest s') = written (ws_dest s) @ [word_of_int v]"
    using lt by (simp add: s' written_def d_def[symmetric] take_Suc_conv_app_nth)
qed


lemma byte_and_FF: "0 \<le> (x::int) AND 0xFF" "(x::int) AND 0xFF \<le> 0xFF"
  by (simp_all add: AND_upper2)

lemma word8_of_byte_eq_FF:
  assumes "0 \<le> c" "c \<le> 0xFF"
  shows "(word_of_int c :: 8 word) = 0xFF \<longleftrightarrow> c = 0xFF"
proof
  assume "(word_of_int c :: 8 word) = 0xFF"
  then have "uint (word_of_int c :: 8 word) = uint (0xFF :: 8 word)" by simp
  moreover have "uint (word_of_int c :: 8 word) = c"
    using assms by (simp add: uint_word_of_int take_bit_int_eq_self)
  ultimately show "c = 0xFF" by simp
qed simp

lemma framed_stuffed: "framed [0xFF, 0]"
  by simp

lemma emit_bits_loop_keeps:
  "emit_bits_loop s b n = (ok, s', b', n') \<Longrightarrow> keeps s s' \<and> cur s' = cur s"
proof (induction s b n arbitrary: ok s' b' n' rule: emit_bits_loop.induct)
  case (1 state b n)
  show ?case
  proof (cases "n \<ge> 8")
    case False
    with "1.prems" show ?thesis
      by (subst (asm) emit_bits_loop.simps) (simp add: keeps_refl)
  next
    case True
    define c where "c = drop_bit 16 b AND 0xFF"
    obtain ok1 s1 where e1: "emit_byte_s state c = (ok1, s1)" by (cases "emit_byte_s state c")
    have k1: "keeps state s1" "cur s1 = cur state"
      using emit_byte_s_keeps[OF e1] emit_byte_s_cur[OF e1] by simp_all
    show ?thesis
    proof (cases ok1)
      case False
      with "1.prems" True e1 k1 show ?thesis
        by (subst (asm) emit_bits_loop.simps) (simp add: c_def[symmetric] Let_def)
    next
      case ok1: True
      obtain ok2 s2 where e2: "(if c = 0xFF then emit_byte_s s1 0 else (True, s1)) = (ok2, s2)"
        by (cases "if c = 0xFF then emit_byte_s s1 0 else (True, s1)")
      have k2: "keeps s1 s2" "cur s2 = cur s1"
        using e2 emit_byte_s_keeps[of s1 0] emit_byte_s_cur[of s1 0]
        by (auto simp: keeps_refl split: if_splits)
      show ?thesis
      proof (cases ok2)
        case False
        with "1.prems" True e1 ok1 e2 k1 k2 show ?thesis
          by (subst (asm) emit_bits_loop.simps)
             (auto simp: c_def[symmetric] Let_def intro: keeps_trans)
      next
        case ok2: True
        have r: "emit_bits_loop s2 (s32 (push_bit 8 b)) (n - 8) = (ok, s', b', n')"
          using "1.prems" True e1 ok1 e2 ok2
          by (subst (asm) emit_bits_loop.simps) (simp add: c_def[symmetric] Let_def)
        have "keeps s2 s' \<and> cur s' = cur s2"
          by (rule "1.IH"[OF True c_def e1[symmetric] _ e2[symmetric] _ r])
             (simp_all add: ok1 ok2)
        with k1 k2 show ?thesis by (auto intro: keeps_trans)
      qed
    qed
  qed
qed


lemma emit_bits_loop_grows:
  "dest_ok (ws_dest s) \<Longrightarrow> emit_bits_loop s b n = (True, s', b', n') \<Longrightarrow> grows s s'"
proof (induction s b n arbitrary: s' b' n' rule: emit_bits_loop.induct)
  case (1 state b n)
  show ?case
  proof (cases "n \<ge> 8")
    case False
    with "1.prems"(2) have "s' = state"
      by (subst (asm) emit_bits_loop.simps) simp
    then show ?thesis by (simp add: grows_refl[OF "1.prems"(1)])
  next
    case True
    define c where "c = drop_bit 16 b AND 0xFF"
    have cb: "0 \<le> c" "c \<le> 0xFF" by (simp_all add: c_def byte_and_FF)
    obtain ok1 s1 where e1: "emit_byte_s state c = (ok1, s1)" by (cases "emit_byte_s state c")
    obtain ok2 s2 where e2: "(if c = 0xFF then emit_byte_s s1 0 else (True, s1)) = (ok2, s2)"
      by (cases "if c = 0xFF then emit_byte_s s1 0 else (True, s1)")
    have ok1: "ok1"
      using "1.prems"(2) True e1
      by (subst (asm) emit_bits_loop.simps) (auto simp: c_def[symmetric] Let_def split: bool.splits)
    have ok2: "ok2"
      using "1.prems"(2) True e1 e2 ok1
      by (subst (asm) emit_bits_loop.simps) (auto simp: c_def[symmetric] Let_def split: bool.splits)
    have r: "emit_bits_loop s2 (s32 (push_bit 8 b)) (n - 8) = (True, s', b', n')"
      using "1.prems"(2) True e1 ok1 e2 ok2
      by (subst (asm) emit_bits_loop.simps) (simp add: c_def[symmetric] Let_def)
    have d1: "dest_ok (ws_dest s1)"
      and w1: "written (ws_dest s1) = written (ws_dest state) @ [word_of_int c]"
      using emit_byte_s_written[OF "1.prems"(1)] e1 ok1 by simp_all
    have g2: "grows state s2"
    proof (cases "c = 0xFF")
      case True
      then have e: "emit_byte_s s1 0 = (True, s2)" using e2 ok2 by simp
      have "dest_ok (ws_dest s2)"
        and "written (ws_dest s2) = written (ws_dest s1) @ [word_of_int 0]"
        using emit_byte_s_written[OF d1 e] by simp_all
      then show ?thesis
        using w1 True unfolding grows_def
        by (intro conjI exI[of _ "[0xFF, 0]"]) simp_all
    next
      case False
      then have "s2 = s1" using e2 by simp
      moreover have "(word_of_int c :: 8 word) \<noteq> 0xFF"
        using False word8_of_byte_eq_FF[OF cb] by simp
      ultimately show ?thesis
        using w1 d1 unfolding grows_def
        by (intro conjI exI[of _ "[word_of_int c]"]) simp_all
    qed
    then have d2: "dest_ok (ws_dest s2)" by (simp add: grows_def)
    have "grows s2 s'"
      by (rule "1.IH"[OF True c_def e1[symmetric] _ e2[symmetric] _ d2 r])
         (simp_all add: ok1 ok2)
    with g2 show ?thesis by (rule grows_trans)
  qed
qed

lemma emit_bits_s_Inr:
  assumes "emit_bits_s s code sz = Inr (ok, s')"
  shows "\<exists>b n s'' b' n'. emit_bits_loop s b n = (ok, s'', b', n') \<and>
     s' = (if ok then s''\<lparr>cur := (cur s'')\<lparr>put_buffer := b', put_bits := n'\<rparr>\<rparr> else s'')"
proof -
  from assms have sz: "sz \<noteq> 0"
    by (cases "sz = 0") (simp_all add: emit_bits_s_def)
  obtain o1 where o1: "c_shl 1 sz = Inr o1"
    using assms sz by (cases "c_shl 1 sz") (simp_all add: emit_bits_s_def err_bind_def)
  define pb0 where "pb0 = s32 code AND s32 (o1 - 1)"
  define n0 where "n0 = s32 (sz + put_bits (cur s))"
  obtain pb1 where pb1: "c_shl pb0 (24 - n0) = Inr pb1"
    using assms sz o1
    by (cases "c_shl pb0 (24 - n0)")
       (simp_all add: emit_bits_s_def err_bind_def Let_def pb0_def n0_def)
  obtain ok' s'' b' n' where l:
    "emit_bits_loop s (pb1 OR put_buffer (cur s)) n0 = (ok', s'', b', n')"
    by (cases "emit_bits_loop s (pb1 OR put_buffer (cur s)) n0")
  have "ok' = ok \<and>
        s' = (if ok then s''\<lparr>cur := (cur s'')\<lparr>put_buffer := b', put_bits := n'\<rparr>\<rparr> else s'')"
    using assms sz o1 pb1 l
    by (cases ok')
       (simp_all add: emit_bits_s_def err_bind_def Let_def pb0_def[symmetric] n0_def[symmetric])
  with l show ?thesis by blast
qed

lemma emit_bits_s_keeps:
  assumes "emit_bits_s s code sz = Inr (ok, s')"
  shows "keeps s s'"
proof -
  obtain b n s'' b' n' where l: "emit_bits_loop s b n = (ok, s'', b', n')"
    and s': "s' = (if ok then s''\<lparr>cur := (cur s'')\<lparr>put_buffer := b', put_bits := n'\<rparr>\<rparr> else s'')"
    using emit_bits_s_Inr[OF assms] by blast
  show ?thesis
    using emit_bits_loop_keeps[OF l] by (simp add: s' keeps_cur_update)
qed

lemma emit_bits_s_grows:
  assumes "dest_ok (ws_dest s)" "emit_bits_s s code sz = Inr (True, s')"
  shows "grows s s'"
proof -
  obtain b n s'' b' n' where l: "emit_bits_loop s b n = (True, s'', b', n')"
    and s': "s' = s''\<lparr>cur := (cur s'')\<lparr>put_buffer := b', put_bits := n'\<rparr>\<rparr>"
    using emit_bits_s_Inr[OF assms(2)] by auto
  show ?thesis
    using emit_bits_loop_grows[OF assms(1) l] by (simp add: s' grows_cur_update)
qed

lemma emit_bits_s_last_dc:
  assumes "emit_bits_s s code sz = Inr (ok, s')"
  shows "last_dc_val (cur s') = last_dc_val (cur s)"
proof -
  obtain b n s'' b' n' where l: "emit_bits_loop s b n = (ok, s'', b', n')"
    and s': "s' = (if ok then s''\<lparr>cur := (cur s'')\<lparr>put_buffer := b', put_bits := n'\<rparr>\<rparr> else s'')"
    using emit_bits_s_Inr[OF assms] by blast
  show ?thesis
    using emit_bits_loop_keeps[OF l] by (simp add: s')
qed

lemma flush_bits_s_Inr:
  assumes "flush_bits_s s = Inr (ok, s')"
  shows "\<exists>s''. emit_bits_s s 0x7F 7 = Inr (ok, s'') \<and>
     s' = (if ok then s''\<lparr>cur := (cur s'')\<lparr>put_buffer := 0, put_bits := 0\<rparr>\<rparr> else s'')"
proof -
  obtain ok' s'' where e: "emit_bits_s s 0x7F 7 = Inr (ok', s'')"
    using assms by (cases "emit_bits_s s 0x7F 7") (auto simp: flush_bits_s_def err_bind_def)
  have "ok' = ok \<and>
        s' = (if ok then s''\<lparr>cur := (cur s'')\<lparr>put_buffer := 0, put_bits := 0\<rparr>\<rparr> else s'')"
    using assms e by (cases ok') (simp_all add: flush_bits_s_def err_bind_def)
  with e show ?thesis by blast
qed

lemma flush_bits_s_keeps:
  assumes "flush_bits_s s = Inr (ok, s')"
  shows "keeps s s'"
proof -
  obtain s'' where e: "emit_bits_s s 0x7F 7 = Inr (ok, s'')"
    and s': "s' = (if ok then s''\<lparr>cur := (cur s'')\<lparr>put_buffer := 0, put_bits := 0\<rparr>\<rparr> else s'')"
    using flush_bits_s_Inr[OF assms] by blast
  show ?thesis using emit_bits_s_keeps[OF e] by (simp add: s' keeps_cur_update)
qed

lemma flush_bits_s_grows:
  assumes "dest_ok (ws_dest s)" "flush_bits_s s = Inr (True, s')"
  shows "grows s s'"
proof -
  obtain s'' where e: "emit_bits_s s 0x7F 7 = Inr (True, s'')"
    and s': "s' = s''\<lparr>cur := (cur s'')\<lparr>put_buffer := 0, put_bits := 0\<rparr>\<rparr>"
    using flush_bits_s_Inr[OF assms(2)] by auto
  show ?thesis using emit_bits_s_grows[OF assms(1) e] by (simp add: s' grows_cur_update)
qed

lemma err_bind_Inr_iff: "err_bind m f = Inr y \<longleftrightarrow> (\<exists>v. m = Inr v \<and> f v = Inr y)"
  by (cases m) (simp_all add: err_bind_def)

lemma err_bindE:
  assumes "err_bind m f = Inr y"
  obtains v where "m = Inr v" "f v = Inr y"
  using assms by (cases m) (simp_all add: err_bind_def)

lemma keeps_dest_ok_length:
  "keeps s s' \<Longrightarrow> length (outbuf (ws_dest s')) = length (outbuf (ws_dest s))"
  by (simp add: keeps_def)

lemma emit_restart_s_keeps:
  assumes "emit_restart_s s n = Inr (ok, s')"
  shows "keeps s s'"
proof -
  obtain ok0 s0 where f: "flush_bits_s s = Inr (ok0, s0)"
  proof (cases "flush_bits_s s")
    case (Inl e)
    then show ?thesis using assms by (simp add: emit_restart_s_def err_bind_def)
  next
    case (Inr v)
    then show ?thesis using that by (cases v) simp
  qed
  have r: "(if \<not> ok0 then Inr (False, s0)
       else case emit_byte_s s0 0xFF of
              (False, s1) \<Rightarrow> Inr (False, s1)
            | (True, s1) \<Rightarrow>
                (case emit_byte_s s1 (JPEG_RST0 + n) of
                   (False, s2) \<Rightarrow> Inr (False, s2)
                 | (True, s2) \<Rightarrow>
                     Inr (True, s2\<lparr>cur := (cur s2)\<lparr>last_dc_val :=
                            fold (\<lambda>ci l. l[ci := 0]) [0..<nat (ws_comps_in_scan s2)]
                              (last_dc_val (cur s2))\<rparr>\<rparr>)))
            = (Inr (ok, s') :: jsc_error + bool \<times> working_state)"
    using assms unfolding emit_restart_s_def err_bind_def f
    by (simp only: sum.case prod.case)
  have k0: "keeps s s0" by (rule flush_bits_s_keeps[OF f])
  show ?thesis
  proof (cases ok0)
    case False
    with r k0 show ?thesis by simp
  next
    case True
    obtain ok1 s1 where e1: "emit_byte_s s0 0xFF = (ok1, s1)" by (cases "emit_byte_s s0 0xFF")
    have k1: "keeps s s1" using k0 emit_byte_s_keeps[OF e1] by (rule keeps_trans)
    show ?thesis
    proof (cases ok1)
      case False
      with r True e1 k1 show ?thesis by simp
    next
      case ok1: True
      obtain ok2 s2 where e2: "emit_byte_s s1 (JPEG_RST0 + n) = (ok2, s2)"
        by (cases "emit_byte_s s1 (JPEG_RST0 + n)")
      have k2: "keeps s s2" using k1 emit_byte_s_keeps[OF e2] by (rule keeps_trans)
      show ?thesis
        using r True e1 ok1 e2 k2 by (cases ok2) (auto simp: keeps_cur_update)
    qed
  qed
qed

lemma restart_code_byte:
  assumes "0 \<le> n" "n \<le> 7"
  shows "0xD0 \<le> uint (word_of_int (JPEG_RST0 + n) :: 8 word)"
        "uint (word_of_int (JPEG_RST0 + n) :: 8 word) \<le> 0xD7"
        "(word_of_int (JPEG_RST0 + n) :: 8 word) \<noteq> 0xFF"
proof -
  have "uint (word_of_int k :: 8 word) = take_bit 8 k" for k
    by (simp add: uint_word_of_int_eq)
  then have u: "uint (word_of_int (JPEG_RST0 + n) :: 8 word) = 0xD0 + n"
    using assms by (simp only: JPEG_RST0_def) (simp add: take_bit_int_eq_self)
  show "0xD0 \<le> uint (word_of_int (JPEG_RST0 + n) :: 8 word)"
       "uint (word_of_int (JPEG_RST0 + n) :: 8 word) \<le> 0xD7"
    unfolding u using assms by simp_all
  show "(word_of_int (JPEG_RST0 + n) :: 8 word) \<noteq> 0xFF"
  proof
    assume "(word_of_int (JPEG_RST0 + n) :: 8 word) = 0xFF"
    then have "uint (word_of_int (JPEG_RST0 + n) :: 8 word) = uint (0xFF :: 8 word)"
      by (simp only:)
    then show False unfolding u using assms by simp
  qed
qed

lemma emit_restart_s_written:
  assumes "dest_ok (ws_dest s)" "0 \<le> n" "n \<le> 7" "emit_restart_s s n = Inr (True, s')"
  shows "dest_ok (ws_dest s') \<and>
         (\<exists>bs. written (ws_dest s') = written (ws_dest s) @ bs @ [0xFF, word_of_int (JPEG_RST0 + n)]
               \<and> framed bs)"
proof -
  obtain ok0 s0 where f: "flush_bits_s s = Inr (ok0, s0)"
  proof (cases "flush_bits_s s")
    case (Inl e)
    then show ?thesis using assms(4) by (simp add: emit_restart_s_def err_bind_def)
  next
    case (Inr v)
    then show ?thesis using that by (cases v) simp
  qed
  have r: "(if \<not> ok0 then Inr (False, s0)
       else case emit_byte_s s0 0xFF of
              (False, s1) \<Rightarrow> Inr (False, s1)
            | (True, s1) \<Rightarrow>
                (case emit_byte_s s1 (JPEG_RST0 + n) of
                   (False, s2) \<Rightarrow> Inr (False, s2)
                 | (True, s2) \<Rightarrow>
                     Inr (True, s2\<lparr>cur := (cur s2)\<lparr>last_dc_val :=
                            fold (\<lambda>ci l. l[ci := 0]) [0..<nat (ws_comps_in_scan s2)]
                              (last_dc_val (cur s2))\<rparr>\<rparr>)))
            = (Inr (True, s') :: jsc_error + bool \<times> working_state)"
    using assms(4) unfolding emit_restart_s_def err_bind_def f
    by (simp only: sum.case prod.case)
  have ok0: ok0 using r by (cases ok0) simp_all
  obtain ok1 s1 where e1: "emit_byte_s s0 0xFF = (ok1, s1)" by (cases "emit_byte_s s0 0xFF")
  have ok1: ok1 using r ok0 e1 by (cases ok1) simp_all
  obtain ok2 s2 where e2: "emit_byte_s s1 (JPEG_RST0 + n) = (ok2, s2)"
    by (cases "emit_byte_s s1 (JPEG_RST0 + n)")
  have ok2: ok2 using r ok0 e1 ok1 e2 by (cases ok2) simp_all
  have s': "ws_dest s' = ws_dest s2" using r ok0 e1 ok1 e2 ok2 by auto
  have g0: "grows s s0" using flush_bits_s_grows[OF assms(1)] f ok0 by simp
  then obtain bs where d0: "dest_ok (ws_dest s0)"
    and w0: "written (ws_dest s0) = written (ws_dest s) @ bs" and fr: "framed bs"
    by (auto simp: grows_def)
  have d1: "dest_ok (ws_dest s1)"
    and w1: "written (ws_dest s1) = written (ws_dest s0) @ [word_of_int 0xFF]"
    using emit_byte_s_written[OF d0] e1 ok1 by simp_all
  have d2: "dest_ok (ws_dest s2)"
    and w2: "written (ws_dest s2) = written (ws_dest s1) @ [word_of_int (JPEG_RST0 + n)]"
    using emit_byte_s_written[OF d1] e2 ok2 by simp_all
  show ?thesis
    using d2 w0 w1 w2 fr by (simp add: s')
qed

lemma emit_restart_s_grows:
  assumes "dest_ok (ws_dest s)" "0 \<le> n" "n \<le> 7" "emit_restart_s s n = Inr (True, s')"
  shows "grows s s'"
proof -
  obtain bs where d: "dest_ok (ws_dest s')"
    and w: "written (ws_dest s') = written (ws_dest s) @ bs @ [0xFF, word_of_int (JPEG_RST0 + n)]"
    and fr: "framed bs"
    using emit_restart_s_written[OF assms] by blast
  have "framed [0xFF, word_of_int (JPEG_RST0 + n) :: 8 word]"
    using restart_code_byte[OF assms(2,3)] by simp
  then have "framed (bs @ [0xFF, word_of_int (JPEG_RST0 + n)])"
    using fr by (rule framed_append[rotated])
  with d w show ?thesis unfolding grows_def by blast
qed

lemma step_refl: "step s True s"
  by (simp add: step_def keeps_refl grows_refl)

lemma step_trans: "step s True s' \<Longrightarrow> step s' ok s'' \<Longrightarrow> step s ok s''"
proof -
  assume a: "step s True s'" and b: "step s' ok s''"
  have k: "keeps s s''" using a b by (auto simp: step_def intro: keeps_trans)
  have "grows s s''" if "ok" "dest_ok (ws_dest s)"
  proof -
    have g1: "grows s s'" using a that by (simp add: step_def)
    then have "dest_ok (ws_dest s')" by (simp add: grows_def)
    then have "grows s' s''" using b that by (simp add: step_def)
    with g1 show ?thesis by (rule grows_trans)
  qed
  with k show ?thesis by (simp add: step_def)
qed

lemma step_False: "step s ok s' \<Longrightarrow> step s False s'"
  by (simp add: step_def)

lemma step_cur_update: "step s ok (s'\<lparr>cur := c\<rparr>) = step s ok s'"
  by (simp add: step_def keeps_cur_update grows_cur_update)

lemma step_cur_update_left: "step (s\<lparr>cur := c\<rparr>) ok s' = step s ok s'"
  by (simp add: step_def keeps_def grows_def)

lemma emit_bits_s_step: "emit_bits_s s code sz = Inr (ok, s') \<Longrightarrow> step s ok s'"
  unfolding step_def using emit_bits_s_keeps emit_bits_s_grows by auto

lemma emit_restart_s_step:
  "0 \<le> n \<Longrightarrow> n \<le> 7 \<Longrightarrow> emit_restart_s s n = Inr (ok, s') \<Longrightarrow> step s ok s'"
  unfolding step_def using emit_restart_s_keeps emit_restart_s_grows by auto

lemma flush_bits_s_step: "flush_bits_s s = Inr (ok, s') \<Longrightarrow> step s ok s'"
  unfolding step_def using flush_bits_s_keeps flush_bits_s_grows by auto

text \<open>The shape of every sequence of calls in the encoder: stop at the first suspension.\<close>

lemma step_bind:
  fixes m :: "jsc_error + bool \<times> working_state"
    and g :: "working_state \<Rightarrow> jsc_error + bool \<times> working_state"
  assumes eq: "err_bind m (\<lambda>(ok1, s1). if \<not> ok1 then Inr (False, s1) else g s1) = Inr (ok, s')"
    and m: "\<And>ok1 s1. m = Inr (ok1, s1) \<Longrightarrow> step s ok1 s1"
    and g: "\<And>s1. m = Inr (True, s1) \<Longrightarrow> g s1 = Inr (ok, s') \<Longrightarrow> step s1 ok s'"
  shows "step s ok s'"
proof (cases m)
  case (Inl e)
  with eq show ?thesis by (simp add: err_bind_def)
next
  case (Inr v)
  obtain ok1 s1 where v: "v = (ok1, s1)" by (cases v)
  show ?thesis
  proof (cases ok1)
    case True
    then have "g s1 = Inr (ok, s')" using eq Inr v by (simp add: err_bind_def)
    then have "step s1 ok s'" using g Inr v True by simp
    moreover have "step s True s1" using m[of ok1 s1] Inr v True by simp
    ultimately show ?thesis by (rule step_trans[rotated])
  next
    case False
    then have "ok = False" "s' = s1" using eq Inr v by (simp_all add: err_bind_def)
    then show ?thesis using m[of ok1 s1] Inr v False by simp
  qed
qed

lemma emit_zrl_loop_step:
  "emit_zrl_loop actbl s r = Inr (ok, s', r') \<Longrightarrow> step s ok s'"
proof (induction actbl s r arbitrary: ok s' r' rule: emit_zrl_loop.induct)
  case (1 actbl state r)
  show ?case
  proof (cases "r > 15")
    case False
    with "1.prems" show ?thesis
      by (subst (asm) emit_zrl_loop.simps) (simp add: step_refl)
  next
    case True
    show ?thesis
    proof (cases "emit_bits_s state (ehufco actbl ! 0xF0) (ehufsi actbl ! 0xF0)")
      case (Inl e)
      with "1.prems" True show ?thesis
        by (subst (asm) emit_zrl_loop.simps) simp
    next
      case (Inr v)
      obtain ok1 s1 where v: "v = (ok1, s1)" by (cases v)
      have st: "step state ok1 s1" using emit_bits_s_step Inr v by simp
      show ?thesis
      proof (cases ok1)
        case False
        with "1.prems" True Inr v st show ?thesis
          by (subst (asm) emit_zrl_loop.simps) auto
      next
        case ok1: True
        have r: "emit_zrl_loop actbl s1 (r - 16) = Inr (ok, s', r')"
          using "1.prems" True Inr v ok1 by (subst (asm) emit_zrl_loop.simps) simp
        have "step s1 ok s'"
          by (rule "1.IH"[OF True _ _ _ r]) (simp_all add: Inr v ok1)
        with st ok1 show ?thesis by (auto intro: step_trans)
      qed
    qed
  qed
qed

lemma encode_nonzero_coef_step:
  assumes "encode_nonzero_coef actbl s r temp2 = Inr (ok, s')"
  shows "step s ok s'"
proof (cases "emit_zrl_loop actbl s r")
  case (Inl e)
  with assms show ?thesis by (simp add: encode_nonzero_coef_def err_bind_def)
next
  case (Inr v)
  obtain ok1 s1 r1 where v: "v = (ok1, s1, r1)" by (cases v)
  have st: "step s ok1 s1" using emit_zrl_loop_step Inr v by simp
  show ?thesis
  proof (cases ok1)
    case False
    with assms Inr v st show ?thesis
      by (auto simp add: encode_nonzero_coef_def err_bind_def)
  next
    case True
    define nbits where "nbits = count_bits (nat (if temp2 < 0 then - temp2 else temp2) div 2) 1"
    define sym where "sym = push_bit 4 r1 + nbits"
    have r: "err_bind (emit_bits_s s1 (ehufco actbl ! nat sym) (ehufsi actbl ! nat sym))
               (\<lambda>(ok, s2). if \<not> ok then Inr (False, s2)
                  else emit_bits_s s2 (u32 (if temp2 < 0 then temp2 - 1 else temp2)) nbits)
             = Inr (ok, s')"
      using assms Inr v True unfolding encode_nonzero_coef_def nbits_def sym_def
      by (simp add: err_bind_def Let_def split: if_splits)
    have "step s1 ok s'"
      by (rule step_bind[OF r]) (auto intro: emit_bits_s_step)
    with st True show ?thesis by (auto intro: step_trans)
  qed
qed

lemma encode_ac_loop_step:
  "encode_ac_loop actbl block Se order s r k = Inr (ok, s', r') \<Longrightarrow> step s ok s'"
proof (induction actbl block Se order s r k arbitrary: ok s' r' rule: encode_ac_loop.induct)
  case (1 actbl block Se order state r k)
  show ?case
  proof (cases "k \<le> Se")
    case False
    with "1.prems" show ?thesis
      by (subst (asm) encode_ac_loop.simps) (simp add: step_refl)
  next
    case True
    show ?thesis
    proof (cases "sint (block ! nat (order ! nat k)) = 0")
      case z: True
      have r: "encode_ac_loop actbl block Se order state (r + 1) (k + 1) = Inr (ok, s', r')"
        using "1.prems" True z by (subst (asm) encode_ac_loop.simps) simp
      show ?thesis by (rule "1.IH"(1)[OF True z r])
    next
      case nz: False
      show ?thesis
      proof (cases "encode_nonzero_coef actbl state r (sint (block ! nat (order ! nat k)))")
        case (Inl e)
        with "1.prems" True nz show ?thesis
          by (subst (asm) encode_ac_loop.simps) simp
      next
        case (Inr v)
        obtain ok1 s1 where v: "v = (ok1, s1)" by (cases v)
        have st: "step state ok1 s1" using encode_nonzero_coef_step Inr v by simp
        show ?thesis
        proof (cases ok1)
          case False
          with "1.prems" True nz Inr v st show ?thesis
            by (subst (asm) encode_ac_loop.simps) auto
        next
          case ok1: True
          have r: "encode_ac_loop actbl block Se order s1 0 (k + 1) = Inr (ok, s', r')"
            using "1.prems" True nz Inr v ok1 by (subst (asm) encode_ac_loop.simps) simp
          have "step s1 ok s'"
            by (rule "1.IH"(2)[OF True nz _ _ _ r]) (simp_all add: Inr v ok1)
          with st ok1 show ?thesis by (auto intro: step_trans)
        qed
      qed
    qed
  qed
qed

lemma encode_ac_part_step:
  assumes "err_bind (encode_ac_loop actbl block Se order s2 0 1)
             (\<lambda>(ok, s3, r). if \<not> ok then Inr (False, s3)
                else if r > 0 then emit_bits_s s3 (ehufco actbl ! 0) (ehufsi actbl ! 0)
                else Inr (True, s3)) = Inr (ok, s')"
  shows "step s2 ok s'"
proof (cases "encode_ac_loop actbl block Se order s2 0 1")
  case (Inl e)
  with assms show ?thesis by (simp add: err_bind_def)
next
  case (Inr v)
  obtain ok3 s3 r where v: "v = (ok3, s3, r)" by (cases v)
  have st: "step s2 ok3 s3" using encode_ac_loop_step Inr v by simp
  show ?thesis
  proof (cases ok3)
    case False
    with assms Inr v st show ?thesis by (auto simp add: err_bind_def)
  next
    case True
    show ?thesis
    proof (cases "r > 0")
      case False
      with assms Inr v True st show ?thesis by (auto simp add: err_bind_def)
    next
      case r: True
      then have "emit_bits_s s3 (ehufco actbl ! 0) (ehufsi actbl ! 0) = Inr (ok, s')"
        using assms Inr v True by (simp add: err_bind_def)
      then have "step s3 ok s'" by (rule emit_bits_s_step)
      with st True show ?thesis by (auto intro: step_trans)
    qed
  qed
qed

lemma encode_one_block_step:
  assumes "encode_one_block s block last_dc dctbl actbl = Inr (ok, s')"
  shows "step s ok s'"
proof -
  define diff where "diff = sint (block ! 0) - last_dc"
  define temp2 where "temp2 = (if diff < 0 then diff - 1 else diff)"
  define nbits where "nbits = count_bits (nat (if diff < 0 then - diff else diff)) 0"
  define g2 where "g2 = (\<lambda>s2. err_bind
      (encode_ac_loop actbl block (ws_lim_Se s) (ws_natural_order s) s2 0 1)
             (\<lambda>(ok, s3, r). if \<not> ok then Inr (False, s3)
                else if r > 0 then emit_bits_s s3 (ehufco actbl ! 0) (ehufsi actbl ! 0)
                else Inr (True, s3)))"
  define g1 where "g1 = (\<lambda>s1. err_bind
      (if nbits \<noteq> 0 then emit_bits_s s1 (u32 temp2) nbits else Inr (True, s1))
      (\<lambda>(ok, s2). if \<not> ok then Inr (False, s2) else g2 s2))"
  have e: "err_bind (emit_bits_s s (ehufco dctbl ! nat nbits) (ehufsi dctbl ! nat nbits))
             (\<lambda>(ok, s1). if \<not> ok then Inr (False, s1) else g1 s1) = Inr (ok, s')"
    using assms unfolding encode_one_block_def g1_def g2_def nbits_def temp2_def diff_def
    by (simp add: Let_def split: if_splits)
  have g2: "step s2 ok s'" if "g2 s2 = Inr (ok, s')" for s2
    using that unfolding g2_def by (rule encode_ac_part_step)
  have g1: "step s1 ok s'" if a: "g1 s1 = Inr (ok, s')" for s1
  proof (rule step_bind[OF a[unfolded g1_def]])
    fix ok1 s1'
    assume "(if nbits \<noteq> 0 then emit_bits_s s1 (u32 temp2) nbits else Inr (True, s1))
              = Inr (ok1, s1')"
    then show "step s1 ok1 s1'"
      by (auto split: if_splits intro: emit_bits_s_step step_refl)
  next
    fix s1' assume "g2 s1' = Inr (ok, s')"
    then show "step s1' ok s'" by (rule g2)
  qed
  show ?thesis
    by (rule step_bind[OF e]) (auto intro: emit_bits_s_step g1)
qed

lemma encode_mcu_blocks_step:
  "encode_mcu_blocks cinfo MCU_data s blks = Inr (ok, s') \<Longrightarrow> step s ok s'"
proof (induction blks arbitrary: s)
  case Nil
  then show ?case by (auto intro: step_refl)
next
  case (Cons blkn rest)
  define ci where "ci = MCU_membership cinfo ! blkn"
  define compptr where "compptr = cur_comp_info cinfo ! nat ci"
  obtain dctbl actbl where
    t: "dc_derived_tbls (entropy cinfo) ! nat (dc_tbl_no compptr) = Some dctbl"
       "ac_derived_tbls (entropy cinfo) ! nat (ac_tbl_no compptr) = Some actbl"
    using Cons.prems unfolding ci_def compptr_def
    by (auto simp add: Let_def split: option.splits)
  show ?case
  proof (cases "encode_one_block s (MCU_data ! blkn) (last_dc_val (cur s) ! nat ci) dctbl actbl")
    case (Inl e)
    with Cons.prems t show ?thesis by (simp add: Let_def ci_def compptr_def)
  next
    case (Inr v)
    obtain ok1 s1 where v: "v = (ok1, s1)" by (cases v)
    have st: "step s ok1 s1" using encode_one_block_step Inr v by simp
    show ?thesis
    proof (cases ok1)
      case False
      with Cons.prems t Inr v st show ?thesis
        by (auto simp add: Let_def ci_def compptr_def)
    next
      case True
      have "encode_mcu_blocks cinfo MCU_data
              (s1\<lparr>cur := (cur s1)\<lparr>last_dc_val :=
                 (last_dc_val (cur s1))[nat ci := sint (MCU_data ! blkn ! 0)]\<rparr>\<rparr>) rest
            = Inr (ok, s')"
        using Cons.prems t Inr v True by (simp add: Let_def ci_def compptr_def)
      then have "step (s1\<lparr>cur := (cur s1)\<lparr>last_dc_val :=
                 (last_dc_val (cur s1))[nat ci := sint (MCU_data ! blkn ! 0)]\<rparr>\<rparr>) ok s'"
        by (rule Cons.IH)
      then have "step s1 ok s'" by (simp only: step_cur_update_left)
      with st True show ?thesis by (auto intro: step_trans)
    qed
  qed
qed

lemma step_keeps: "step s ok s' \<Longrightarrow> keeps s s'"
  by (simp add: step_def)

lemma step_grows: "step s True s' \<Longrightarrow> dest_ok (ws_dest s) \<Longrightarrow> grows s s'"
  by (simp add: step_def)

lemma encode_mcu_blocks_keeps:
  "encode_mcu_blocks cinfo MCU_data s blks = Inr (ok, s') \<Longrightarrow> keeps s s'"
  using encode_mcu_blocks_step step_keeps by blast

lemma and_7_range: "0 \<le> (x::int) AND 7" "(x::int) AND 7 \<le> 7"
  by (simp_all add: AND_upper2)

text \<open>The two ways in which \<^verbatim>\<open>encode_mcu_huff\<close> returns.\<close>

lemma encode_mcu_huff_result:
  assumes r: "encode_mcu_huff cinfo MCU_data = Inr (ok, c')"
  defines "state \<equiv> \<lparr>ws_dest = dest cinfo, cur = saved (entropy cinfo),
                   ws_comps_in_scan = comps_in_scan cinfo, ws_lim_Se = lim_Se cinfo,
                   ws_natural_order = natural_order cinfo\<rparr>"
  shows "\<exists>s. keeps state s \<and> (if scan_ok cinfo then step state ok s else True) \<and>
           (if ok then dest c' = ws_dest s \<and>
                       (if scan_ok cinfo then 0 \<le> next_restart_num (entropy c')
                          \<and> next_restart_num (entropy c') \<le> 7 else True)
            else c' = cinfo\<lparr>dest := (dest cinfo)\<lparr>outbuf := outbuf (ws_dest s)\<rparr>\<rparr>)"
proof -
  define m1 where "m1 = (if restart_interval cinfo \<noteq> 0 \<and> restarts_to_go (entropy cinfo) = 0
                   then emit_restart_s state (next_restart_num (entropy cinfo))
                   else Inr (True, state))"
  obtain ok1 s1 where m1: "m1 = Inr (ok1, s1)"
  proof (cases m1)
    case (Inl e)
    then show ?thesis using r unfolding encode_mcu_huff_def m1_def state_def
      by (simp add: Let_def err_bind_def)
  next
    case (Inr v) then show ?thesis using that by (cases v) simp
  qed
  have k1: "keeps state s1"
    using m1 unfolding m1_def
    by (auto split: if_splits intro: emit_restart_s_keeps keeps_refl)
  have st1: "step state ok1 s1" if "scan_ok cinfo"
    using m1 that unfolding m1_def scan_ok_def
    by (auto split: if_splits intro: emit_restart_s_step step_refl)
  show ?thesis
  proof (cases ok1)
    case False
    have "ok = False \<and> c' = cinfo\<lparr>dest := (dest cinfo)\<lparr>outbuf := outbuf (ws_dest s1)\<rparr>\<rparr>"
      using r m1 False unfolding encode_mcu_huff_def m1_def state_def
      by (simp add: Let_def err_bind_def)
    with k1 st1 False show ?thesis by auto
  next
    case ok1: True
    define m2 where "m2 = encode_mcu_blocks cinfo MCU_data s1 [0..<nat (blocks_in_MCU cinfo)]"
    obtain ok2 s2 where m2: "m2 = Inr (ok2, s2)"
    proof (cases m2)
      case (Inl e)
      then show ?thesis using r m1 ok1 unfolding encode_mcu_huff_def m1_def m2_def state_def
        by (simp add: Let_def err_bind_def)
    next
      case (Inr v) then show ?thesis using that by (cases v) simp
    qed
    have k2: "keeps state s2"
      using k1 encode_mcu_blocks_keeps m2[unfolded m2_def] by (blast intro: keeps_trans)
    have st2: "step state ok2 s2" if "scan_ok cinfo"
      using st1[OF that] ok1 encode_mcu_blocks_step[OF m2[unfolded m2_def]]
      by (auto intro: step_trans)
    show ?thesis
    proof (cases ok2)
      case False
      have "ok = False \<and> c' = cinfo\<lparr>dest := (dest cinfo)\<lparr>outbuf := outbuf (ws_dest s2)\<rparr>\<rparr>"
        using r m1 ok1 m2 False unfolding encode_mcu_huff_def m1_def m2_def state_def
        by (simp add: Let_def err_bind_def)
      with k2 st2 False show ?thesis by auto
    next
      case ok2: True
      have "ok = True \<and> dest c' = ws_dest s2 \<and>
            next_restart_num (entropy c') \<in>
              {next_restart_num (entropy cinfo), s32 (next_restart_num (entropy cinfo) + 1) AND 7}"
        using r m1 ok1 m2 ok2 unfolding encode_mcu_huff_def m1_def m2_def state_def
        by (auto simp add: Let_def err_bind_def)
      moreover have "0 \<le> next_restart_num (entropy c') \<and> next_restart_num (entropy c') \<le> 7"
        if "scan_ok cinfo"
        using calculation that and_7_range[of "s32 (next_restart_num (entropy cinfo) + 1)"]
        by (auto simp add: scan_ok_def)
      ultimately show ?thesis using k2 st2 ok2 by auto
    qed
  qed
qed

lemma encode_mcu_huff_True:
  assumes "scan_ok cinfo" "encode_mcu_huff cinfo MCU_data = Inr (True, c')"
  shows "scan_ok c' \<and> (\<exists>bs. written (dest c') = written (dest cinfo) @ bs \<and> framed bs)"
proof -
  define state where "state = \<lparr>ws_dest = dest cinfo, cur = saved (entropy cinfo),
                   ws_comps_in_scan = comps_in_scan cinfo, ws_lim_Se = lim_Se cinfo,
                   ws_natural_order = natural_order cinfo\<rparr>"
  obtain s where s: "step state True s" "dest c' = ws_dest s"
    "0 \<le> next_restart_num (entropy c')" "next_restart_num (entropy c') \<le> 7"
    using encode_mcu_huff_result[OF assms(2)] assms(1) unfolding state_def by auto
  have "dest_ok (ws_dest state)" using assms(1) by (simp add: scan_ok_def state_def)
  then have "grows state s" using s(1) by (rule step_grows[rotated])
  then show ?thesis using s(2-4) by (simp add: grows_def scan_ok_def state_def)
qed

lemma encode_mcu_huff_False:
  assumes "encode_mcu_huff cinfo MCU_data = Inr (False, c')"
  shows "next_output_byte (dest c') = next_output_byte (dest cinfo)"
    and "free_in_buffer (dest c') = free_in_buffer (dest cinfo)"
    and "entropy c' = entropy cinfo"
    and "written (dest c') = written (dest cinfo)"
proof -
  define state where "state = \<lparr>ws_dest = dest cinfo, cur = saved (entropy cinfo),
                   ws_comps_in_scan = comps_in_scan cinfo, ws_lim_Se = lim_Se cinfo,
                   ws_natural_order = natural_order cinfo\<rparr>"
  obtain s where s: "keeps state s"
    "c' = cinfo\<lparr>dest := (dest cinfo)\<lparr>outbuf := outbuf (ws_dest s)\<rparr>\<rparr>"
    using encode_mcu_huff_result[OF assms] unfolding state_def by auto
  show "next_output_byte (dest c') = next_output_byte (dest cinfo)"
    and "free_in_buffer (dest c') = free_in_buffer (dest cinfo)"
    and "entropy c' = entropy cinfo"
    by (simp_all add: s(2))
  show "written (dest c') = written (dest cinfo)"
    using s(1) by (simp add: s(2) written_def keeps_def state_def)
qed

lemma encode_mcus_True:
  "scan_ok cinfo \<Longrightarrow> encode_mcus cinfo mcus = Inr (True, c') \<Longrightarrow>
   scan_ok c' \<and> (\<exists>bs. written (dest c') = written (dest cinfo) @ bs \<and> framed bs)"
proof (induction mcus arbitrary: cinfo)
  case Nil
  then show ?case by simp
next
  case (Cons MCU_data rest)
  obtain c1 where c1: "encode_mcu_huff cinfo MCU_data = Inr (True, c1)"
    and r: "encode_mcus c1 rest = Inr (True, c')"
    using Cons.prems(2) by (auto split: sum.splits bool.splits)
  obtain bs1 where 1: "scan_ok c1" "written (dest c1) = written (dest cinfo) @ bs1" "framed bs1"
    using encode_mcu_huff_True[OF Cons.prems(1) c1] by auto
  obtain bs2 where 2: "scan_ok c'" "written (dest c') = written (dest c1) @ bs2" "framed bs2"
    using Cons.IH[OF 1(1) r] by auto
  have "written (dest c') = written (dest cinfo) @ (bs1 @ bs2)" using 1(2) 2(2) by simp
  moreover have "framed (bs1 @ bs2)" using 1(3) 2(3) by (rule framed_append)
  ultimately show ?case using 2(1) by blast
qed

lemma finish_pass_huff_written:
  assumes "dest_ok (dest cinfo)" "finish_pass_huff cinfo = Inr c'"
  shows "dest_ok (dest c') \<and> (\<exists>bs. written (dest c') = written (dest cinfo) @ bs \<and> framed bs)"
proof -
  define state where "state = \<lparr>ws_dest = dest cinfo, cur = saved (entropy cinfo),
                   ws_comps_in_scan = comps_in_scan cinfo, ws_lim_Se = lim_Se cinfo,
                   ws_natural_order = natural_order cinfo\<rparr>"
  obtain s where f: "flush_bits_s state = Inr (True, s)" and c': "dest c' = ws_dest s"
    using assms(2) unfolding finish_pass_huff_def state_def
    by (auto simp add: Let_def err_bind_def split: sum.splits if_splits)
  have "grows state s"
    by (rule flush_bits_s_grows[OF _ f]) (simp add: state_def assms(1))
  then show ?thesis by (simp add: grows_def c' state_def)
qed

lemma encode_scan_written:
  assumes "scan_ok cinfo" "encode_scan cinfo mcus = Inr (True, c')"
  shows "\<exists>bs. written (dest c') = written (dest cinfo) @ bs \<and> framed bs"
proof -
  obtain c1 where c1: "encode_mcus cinfo mcus = Inr (True, c1)"
    and f: "finish_pass_huff c1 = Inr c'"
    using assms(2) unfolding encode_scan_def by (auto split: sum.splits bool.splits)
  obtain bs1 where 1: "scan_ok c1" "written (dest c1) = written (dest cinfo) @ bs1" "framed bs1"
    using encode_mcus_True[OF assms(1) c1] by auto
  obtain bs2 where 2: "written (dest c') = written (dest c1) @ bs2" "framed bs2"
    using finish_pass_huff_written[OF _ f] 1(1) by (auto simp add: scan_ok_def)
  have "written (dest c') = written (dest cinfo) @ (bs1 @ bs2)" using 1(2) 2(1) by simp
  moreover have "framed (bs1 @ bs2)" using 1(3) 2(2) by (rule framed_append)
  ultimately show ?thesis by blast
qed

lemma encode_mcus_committed:
  "scan_ok cinfo \<Longrightarrow> encode_mcus cinfo mcus = Inr (ok, c') \<Longrightarrow>
   dest_ok (dest c') \<and> (\<exists>bs. written (dest c') = written (dest cinfo) @ bs \<and> framed bs)"
proof (induction mcus arbitrary: cinfo)
  case Nil
  then show ?case by (simp add: scan_ok_def)
next
  case (Cons MCU_data rest)
  show ?case
  proof (cases "encode_mcu_huff cinfo MCU_data")
    case (Inl e)
    with Cons.prems(2) show ?thesis by simp
  next
    case (Inr v)
    obtain ok1 c1 where v: "v = (ok1, c1)" by (cases v)
    show ?thesis
    proof (cases ok1)
      case False
      then have c': "c' = c1" using Cons.prems(2) Inr v by simp
      have "written (dest c1) = written (dest cinfo)"
        "next_output_byte (dest c1) = next_output_byte (dest cinfo)"
        "free_in_buffer (dest c1) = free_in_buffer (dest cinfo)"
        using encode_mcu_huff_False[of cinfo MCU_data c1] Inr v False by simp_all
      moreover have "length (outbuf (dest c1)) = length (outbuf (dest cinfo))"
      proof -
        obtain s where s: "keeps \<lparr>ws_dest = dest cinfo, cur = saved (entropy cinfo),
                   ws_comps_in_scan = comps_in_scan cinfo, ws_lim_Se = lim_Se cinfo,
                   ws_natural_order = natural_order cinfo\<rparr> s"
          "c1 = cinfo\<lparr>dest := (dest cinfo)\<lparr>outbuf := outbuf (ws_dest s)\<rparr>\<rparr>"
          using encode_mcu_huff_result[of cinfo MCU_data ok1 c1] Inr v False by auto
        then show ?thesis by (simp add: keeps_def)
      qed
      ultimately show ?thesis
        using Cons.prems(1) by (simp add: c' scan_ok_def dest_ok_def)
    next
      case True
      then have r: "encode_mcus c1 rest = Inr (ok, c')" using Cons.prems(2) Inr v by simp
      have c1: "encode_mcu_huff cinfo MCU_data = Inr (True, c1)" using Inr v True by simp
      obtain bs1 where 1: "scan_ok c1" "written (dest c1) = written (dest cinfo) @ bs1"
          "framed bs1"
        using encode_mcu_huff_True[OF Cons.prems(1) c1] by auto
      obtain bs2 where 2: "dest_ok (dest c')" "written (dest c') = written (dest c1) @ bs2"
          "framed bs2"
        using Cons.IH[OF 1(1) r] by auto
      have "written (dest c') = written (dest cinfo) @ (bs1 @ bs2)" using 1(2) 2(2) by simp
      moreover have "framed (bs1 @ bs2)" using 1(3) 2(3) by (rule framed_append)
      ultimately show ?thesis using 2(1) by blast
    qed
  qed
qed

lemma encode_scan_committed:
  assumes "scan_ok cinfo" "encode_scan cinfo mcus = Inr (ok, c')"
  shows "\<exists>bs. written (dest c') = written (dest cinfo) @ bs \<and> framed bs"
proof (cases "encode_mcus cinfo mcus")
  case (Inl e)
  with assms(2) show ?thesis by (simp add: encode_scan_def)
next
  case (Inr v)
  obtain ok1 c1 where v: "v = (ok1, c1)" by (cases v)
  have m: "encode_mcus cinfo mcus = Inr (ok1, c1)" using Inr v by simp
  obtain bs1 where 1: "dest_ok (dest c1)" "written (dest c1) = written (dest cinfo) @ bs1"
      "framed bs1"
    using encode_mcus_committed[OF assms(1) m] by auto
  show ?thesis
  proof (cases ok1)
    case False
    then have "c' = c1" using assms(2) m by (simp add: encode_scan_def)
    with 1 show ?thesis by blast
  next
    case True
    then obtain f where f: "finish_pass_huff c1 = Inr c'"
      using assms(2) m by (auto simp add: encode_scan_def split: sum.splits)
    obtain bs2 where 2: "written (dest c') = written (dest c1) @ bs2" "framed bs2"
      using finish_pass_huff_written[OF 1(1) f] by auto
    have "written (dest c') = written (dest cinfo) @ (bs1 @ bs2)" using 1(2) 2(1) by simp
    moreover have "framed (bs1 @ bs2)" using 1(3) 2(2) by (rule framed_append)
    ultimately show ?thesis by blast
  qed
qed


text \<open>
  C1. On a destination that is in order, every call of \<^verbatim>\<open>emit_bits_s\<close> that returns
  \<^verbatim>\<open>TRUE\<close> has extended the output by a framed piece (every 0xFF in it is followed by
  0x00 or by one of 0xD0 to 0xD7, and its last byte is not 0xFF), and every call of
  \<^verbatim>\<open>emit_restart_s\<close> for a restart number from 0 to 7 that returns \<^verbatim>\<open>TRUE\<close> has
  extended it by a framed piece that ends with 0xFF and the code of the restart marker.
  Consequently the output that a scan has committed, whether the scan ran to its end or
  stopped at an MCU that did not fit, is the output before the scan extended by a
  framed piece.
\<close>

theorem entropy_output_framed:
  "(dest_ok (ws_dest s) \<and> emit_bits_s s code sz = Inr (True, s1) \<longrightarrow>
      (\<exists>bs. written (ws_dest s1) = written (ws_dest s) @ bs \<and> framed bs))
   \<and> (dest_ok (ws_dest s) \<and> 0 \<le> n \<and> n \<le> 7 \<and> emit_restart_s s n = Inr (True, s2) \<longrightarrow>
      (\<exists>bs. written (ws_dest s2)
               = written (ws_dest s) @ bs @ [0xFF, word_of_int (JPEG_RST0 + n)]
            \<and> 0xD0 \<le> uint (word_of_int (JPEG_RST0 + n) :: 8 word)
            \<and> uint (word_of_int (JPEG_RST0 + n) :: 8 word) \<le> 0xD7
            \<and> framed (bs @ [0xFF, word_of_int (JPEG_RST0 + n)])))
   \<and> (scan_ok cinfo \<and> encode_scan cinfo mcus = Inr (ok, c') \<longrightarrow>
      (\<exists>bs. written (dest c') = written (dest cinfo) @ bs \<and> framed bs))"
proof (intro conjI impI)
  assume "dest_ok (ws_dest s) \<and> emit_bits_s s code sz = Inr (True, s1)"
  then have "grows s s1" using emit_bits_s_grows by blast
  then show "\<exists>bs. written (ws_dest s1) = written (ws_dest s) @ bs \<and> framed bs"
    by (simp add: grows_def)
next
  assume a: "dest_ok (ws_dest s) \<and> 0 \<le> n \<and> n \<le> 7 \<and> emit_restart_s s n = Inr (True, s2)"
  then obtain bs where
    w: "written (ws_dest s2) = written (ws_dest s) @ bs @ [0xFF, word_of_int (JPEG_RST0 + n)]"
    and fr: "framed bs"
    using emit_restart_s_written[of s n s2] by blast
  have r: "0xD0 \<le> uint (word_of_int (JPEG_RST0 + n) :: 8 word)"
       "uint (word_of_int (JPEG_RST0 + n) :: 8 word) \<le> 0xD7"
    and r': "(word_of_int (JPEG_RST0 + n) :: 8 word) \<noteq> 0xFF"
  proof -
    have n: "0 \<le> n" "n \<le> 7" using a by simp_all
    show "0xD0 \<le> uint (word_of_int (JPEG_RST0 + n) :: 8 word)"
      by (rule restart_code_byte(1)[OF n])
    show "uint (word_of_int (JPEG_RST0 + n) :: 8 word) \<le> 0xD7"
      by (rule restart_code_byte(2)[OF n])
    show "(word_of_int (JPEG_RST0 + n) :: 8 word) \<noteq> 0xFF"
      by (rule restart_code_byte(3)[OF n])
  qed
  have "framed [0xFF, word_of_int (JPEG_RST0 + n) :: 8 word]"
    unfolding framed.simps using r r' by (simp only: simp_thms if_True)
  then have "framed (bs @ [0xFF, word_of_int (JPEG_RST0 + n)])"
    using fr by (rule framed_append[rotated])
  with w r show "\<exists>bs. written (ws_dest s2)
               = written (ws_dest s) @ bs @ [0xFF, word_of_int (JPEG_RST0 + n)]
            \<and> 0xD0 \<le> uint (word_of_int (JPEG_RST0 + n) :: 8 word)
            \<and> uint (word_of_int (JPEG_RST0 + n) :: 8 word) \<le> 0xD7
            \<and> framed (bs @ [0xFF, word_of_int (JPEG_RST0 + n)])"
    by blast
next
  assume "scan_ok cinfo \<and> encode_scan cinfo mcus = Inr (ok, c')"
  then show "\<exists>bs. written (dest c') = written (dest cinfo) @ bs \<and> framed bs"
    using encode_scan_committed by blast
qed

text \<open>
  The example: ten 1-bits give the bytes FF 00; the restart marker number 3 on an empty
  bit buffer gives FF D3; the scan of two MCUs with a restart between them gives
  FE FF 00 EB, FF D0, FE FF 00 EB.
\<close>

theorem entropy_output_framed_witness:
  "dest_ok (ws_dest example_state) \<and> scan_ok example_scan \<and>
   (\<exists>s1. emit_bits_s example_state 0x3FF 10 = Inr (True, s1)
        \<and> written (ws_dest s1) = [0xFF, 0x00]) \<and>
   (\<exists>s2. emit_restart_s example_state 3 = Inr (True, s2)
        \<and> written (ws_dest s2) = [0xFF, 0xD3]) \<and>
   (\<exists>c. encode_scan example_scan [[example_block], [example_block]] = Inr (True, c)
        \<and> written (dest c) = [0xFE, 0xFF, 0x00, 0xEB, 0xFF, 0xD0, 0xFE, 0xFF, 0x00, 0xEB]) \<and>
   framed [0xFE, 0xFF, 0x00, 0xEB, 0xFF, 0xD0, 0xFE, 0xFF, 0x00, 0xEB]"
proof -
  have "case emit_bits_s example_state 0x3FF 10 of
          Inr (True, s1) \<Rightarrow> written (ws_dest s1) = [0xFF, 0x00] | _ \<Rightarrow> False"
    by code_simp
  then obtain s1 where s1: "emit_bits_s example_state 0x3FF 10 = Inr (True, s1)"
      "written (ws_dest s1) = [0xFF, 0x00]"
    by (auto split: sum.splits prod.splits bool.splits)
  have "case emit_restart_s example_state 3 of
          Inr (True, s2) \<Rightarrow> written (ws_dest s2) = [0xFF, 0xD3] | _ \<Rightarrow> False"
    by code_simp
  then obtain s2 where s2: "emit_restart_s example_state 3 = Inr (True, s2)"
      "written (ws_dest s2) = [0xFF, 0xD3]"
    by (auto split: sum.splits prod.splits bool.splits)
  have "case encode_scan example_scan [[example_block], [example_block]] of
          Inr (True, c) \<Rightarrow>
            written (dest c) = [0xFE, 0xFF, 0x00, 0xEB, 0xFF, 0xD0, 0xFE, 0xFF, 0x00, 0xEB]
        | _ \<Rightarrow> False"
    by code_simp
  then obtain c where c: "encode_scan example_scan [[example_block], [example_block]]
                            = Inr (True, c)"
      "written (dest c) = [0xFE, 0xFF, 0x00, 0xEB, 0xFF, 0xD0, 0xFE, 0xFF, 0x00, 0xEB]"
    by (auto split: sum.splits prod.splits bool.splits)
  have d: "dest_ok (ws_dest example_state)" "scan_ok example_scan"
    by (simp_all add: dest_ok_def scan_ok_def example_state_def example_scan_def
        example_dest_def)
  have w: "written (dest example_scan) = []"
    by (simp add: written_def example_scan_def example_dest_def)
  have "framed [0xFE, 0xFF, 0x00, 0xEB, 0xFF, 0xD0, 0xFE, 0xFF, 0x00, 0xEB]"
    using entropy_output_framed
      [of example_state "0x3FF" 10 s1 3 s2 example_scan
          "[[example_block], [example_block]]" True c]
      d c
    by (simp add: w)
  with d s1 s2 c show ?thesis by blast
qed

section \<open>Properties: a full output buffer\<close>

lemma emit_byte_s_count:
  assumes "dest_ok (ws_dest s)" "emit_byte_s s v = (ok, s')"
  shows "free_in_buffer (ws_dest s') = free_in_buffer (ws_dest s) - 1"
    and "0 \<le> free_in_buffer (ws_dest s')"
    and "ok \<longleftrightarrow> free_in_buffer (ws_dest s') \<noteq> 0"
    and "next_output_byte (ws_dest s') = Suc (next_output_byte (ws_dest s))"
proof -
  have f: "0 < free_in_buffer (ws_dest s)" "free_in_buffer (ws_dest s) < 2 ^ 32"
    using assms(1) by (simp_all add: dest_ok_def)
  have u: "u32 (free_in_buffer (ws_dest s) - 1) = free_in_buffer (ws_dest s) - 1"
    using f by (intro u32_id) auto
  show "free_in_buffer (ws_dest s') = free_in_buffer (ws_dest s) - 1"
    using assms(2) by (auto simp add: emit_byte_s_def Let_def u)
  then show "0 \<le> free_in_buffer (ws_dest s')" using f by simp
  show "ok \<longleftrightarrow> free_in_buffer (ws_dest s') \<noteq> 0"
    using assms(2) by (auto simp add: emit_byte_s_def Let_def u)
  show "next_output_byte (ws_dest s') = Suc (next_output_byte (ws_dest s))"
    using assms(2) by (auto simp add: emit_byte_s_def Let_def u)
qed

lemma compress_MCU_row_fails:
  assumes "encode_mcus (enc obj)
             (map (fdct buf (iMCU_row_num (coef obj)) y) [col..col + int n - 1]) = Inr (True, c1)"
    and "encode_mcu_huff c1 (fdct buf (iMCU_row_num (coef obj)) y (col + int n)) = Inr (False, c2)"
    and "0 \<le> col" "col + int n \<le> u32 (MCUs_per_row obj - 1)"
  shows "compress_MCU_row fdct buf obj y col =
           Some (Inr (False, obj\<lparr>enc := c2,
                                  coef := (coef obj)\<lparr>MCU_vert_offset := y,
                                                     mcu_ctr := col + int n\<rparr>\<rparr>))"
  using assms
proof (induction n arbitrary: obj col)
  case 0
  then show ?case
    by (subst compress_MCU_row.simps) simp
next
  case (Suc n)
  have e: "col + int (Suc n) - 1 = col + 1 + int n - 1" by simp
  have l: "[col..col + int (Suc n) - 1] = col # [col + 1..col + 1 + int n - 1]"
    unfolding e by (rule upto_rec1) simp
  obtain c where c: "encode_mcu_huff (enc obj) (fdct buf (iMCU_row_num (coef obj)) y col)
                       = Inr (True, c)"
    and r: "encode_mcus c (map (fdct buf (iMCU_row_num (coef obj)) y)
                             [col + 1..col + 1 + int n - 1]) = Inr (True, c1)"
    using Suc.prems(1) unfolding l by (auto split: sum.splits bool.splits)
  have b: "u32 (MCUs_per_row obj - 1) < 2 ^ 32"
    unfolding u32_def using take_bit_int_less_exp[of 32] by simp
  have u: "u32 (col + 1) = col + 1"
    using Suc.prems(3,4) b by (intro u32_id) auto
  have "compress_MCU_row fdct buf (obj\<lparr>enc := c\<rparr>) y (col + 1) =
           Some (Inr (False, (obj\<lparr>enc := c\<rparr>)\<lparr>enc := c2,
                                  coef := (coef (obj\<lparr>enc := c\<rparr>))\<lparr>MCU_vert_offset := y,
                                                     mcu_ctr := col + 1 + int n\<rparr>\<rparr>))"
    using r Suc.prems(2,3,4) by (intro Suc.IH) (simp_all add: add.assoc)
  then show ?case
    using Suc.prems(4) c
    by (subst compress_MCU_row.simps) (simp add: u add.assoc)
qed

lemma compress_data_fails:
  assumes "MCU_vert_offset (coef obj) < MCU_rows_per_iMCU_row (coef obj)"
    and "encode_mcus (enc obj)
             (map (fdct buf (iMCU_row_num (coef obj)) (MCU_vert_offset (coef obj)))
                [mcu_ctr (coef obj)..mcu_ctr (coef obj) + int n - 1]) = Inr (True, c1)"
    and "encode_mcu_huff c1 (fdct buf (iMCU_row_num (coef obj)) (MCU_vert_offset (coef obj))
                               (mcu_ctr (coef obj) + int n)) = Inr (False, c2)"
    and "0 \<le> mcu_ctr (coef obj)" "mcu_ctr (coef obj) + int n \<le> u32 (MCUs_per_row obj - 1)"
  shows "compress_data fdct obj buf =
           Some (Inr (False, obj\<lparr>enc := c2,
                                  coef := (coef obj)\<lparr>mcu_ctr := mcu_ctr (coef obj) + int n\<rparr>\<rparr>))"
proof -
  have "compress_MCU_rows fdct buf obj (MCU_vert_offset (coef obj)) =
           Some (Inr (False, obj\<lparr>enc := c2,
                                  coef := (coef obj)\<lparr>mcu_ctr := mcu_ctr (coef obj) + int n\<rparr>\<rparr>))"
    using assms(1)
      compress_MCU_row_fails[where obj = obj and fdct = fdct and buf = buf
        and y = "MCU_vert_offset (coef obj)" and col = "mcu_ctr (coef obj)" and n = n,
        OF assms(2-5)]
    by (subst compress_MCU_rows.simps) simp
  then show ?thesis by (simp add: compress_data_def)
qed


lemma process_data_simple_main_fails:
  assumes m: "cur_iMCU_row (mainp obj) < total_iMCU_rows (enc obj)"
    and p: "(if rowgroup_ctr (mainp obj) < u32 (min_DCT_v_scaled_size (enc obj))
             then prep obj buf row irc avail (rowgroup_ctr (mainp obj))
             else (buf, irc, rowgroup_ctr (mainp obj)))
            = (buf', irc', u32 (min_DCT_v_scaled_size (enc obj)))"
    and c: "cdata (obj\<lparr>mainp := (mainp obj)
                     \<lparr>rowgroup_ctr := u32 (min_DCT_v_scaled_size (enc obj))\<rparr>\<rparr>) buf'
            = Some (Inr (False, obj'))"
    and s: "\<not> suspended (mainp obj')"
  shows "process_data_simple_main prep cdata obj buf row irc avail =
           Some (Inr (obj'\<lparr>mainp := (mainp obj')\<lparr>suspended := True\<rparr>\<rparr>, buf', u32 (irc' - 1)))"
  by (subst process_data_simple_main.simps) (simp add: m p c s)

lemma u32_pred_not_1:
  assumes "0 \<le> i" "i \<le> 1"
  shows "u32 (i - 1) \<noteq> 1"
proof -
  have "i = 0 \<or> i = 1" using assms by auto
  moreover have "u32 (- 1) = 4294967295" by (simp add: u32_def mask_eq_exp_minus_1)
  moreover have "u32 0 = 0" by (simp add: u32_def)
  ultimately show ?thesis by auto
qed

lemma jsc_compress_rows_fails:
  assumes g: "global_state (enc obj) = CSTATE_SCANNING"
    and n: "next_scanline obj < image_height (enc obj)"
    and st: "(if call_pass_startup obj then startup obj else Inr obj) = Inr obj1"
    and n1: "0 \<le> next_scanline obj1" "next_scanline obj1 < image_height (enc obj1)"
            "image_height (enc obj1) < 2 ^ 32"
    and m: "cur_iMCU_row (mainp obj1) < total_iMCU_rows (enc obj1)"
    and p: "(if rowgroup_ctr (mainp obj1) < u32 (min_DCT_v_scaled_size (enc obj1))
             then prep obj1 buf (rows (next_scanline obj)) 0 1 (rowgroup_ctr (mainp obj1))
             else (buf, 0, rowgroup_ctr (mainp obj1)))
            = (buf1, irc1, u32 (min_DCT_v_scaled_size (enc obj1)))"
    and i: "0 \<le> irc1" "irc1 \<le> 1"
    and c: "cdata (obj1\<lparr>mainp := (mainp obj1)
                     \<lparr>rowgroup_ctr := u32 (min_DCT_v_scaled_size (enc obj1))\<rparr>\<rparr>) buf1
            = Some (Inr (False, obj2))"
    and s: "\<not> suspended (mainp obj2)"
  shows "jsc_compress_rows startup prep cdata finish obj buf rows =
           Some (Inr (- 1, obj2\<lparr>mainp := (mainp obj2)\<lparr>suspended := True\<rparr>,
                               next_scanline := u32 (next_scanline obj2 + u32 (irc1 - 1)),
                               c_warned := c_warned obj2 @ [JERR_JSC_WRITE_LINE_FAIL]\<rparr>))"
proof -
  have rl: "u32 (image_height (enc obj1) - next_scanline obj1)
              = image_height (enc obj1) - next_scanline obj1"
    using n1 by (intro u32_id) auto
  have nl: "(if 1 > u32 (image_height (enc obj1) - next_scanline obj1)
             then u32 (image_height (enc obj1) - next_scanline obj1) else 1) = 1"
    using n1 by (simp add: rl)
  have pd: "process_data_simple_main prep cdata obj1 buf (rows (next_scanline obj)) 0 1 =
           Some (Inr (obj2\<lparr>mainp := (mainp obj2)\<lparr>suspended := True\<rparr>\<rparr>, buf1, u32 (irc1 - 1)))"
    by (rule process_data_simple_main_fails[where prep = prep and cdata = cdata
          and obj = obj1 and buf = buf and irc = 0 and avail = 1, OF m p c s])
  have w: "jpeg_write_scanlines startup prep cdata obj buf (rows (next_scanline obj)) 1 =
             Some (Inr (u32 (irc1 - 1),
                        obj2\<lparr>mainp := (mainp obj2)\<lparr>suspended := True\<rparr>,
                             next_scanline := u32 (next_scanline obj2 + u32 (irc1 - 1))\<rparr>,
                        buf1))"
    using g n by (simp add: jpeg_write_scanlines_def st Let_def nl pd)
  show ?thesis
    using n u32_pred_not_1[OF i]
    by (subst jsc_compress_rows.simps) (simp add: w)
qed


text \<open>
  C4. (1) On a destination that is in order \<^verbatim>\<open>emit_byte_s\<close> reduces the count of free
  bytes by one, to a value that is not negative, and takes its action (the caller
  returns \<^verbatim>\<open>FALSE\<close>) exactly when the count has reached zero. (2) An MCU that
  \<^verbatim>\<open>encode_mcu_huff\<close> has encoded leaves the destination in order, with at least one
  free byte. (3) When \<^verbatim>\<open>encode_mcu_huff\<close> returns \<^verbatim>\<open>FALSE\<close>, the pointer and the count
  of the destination, the whole state of the entropy encoder (bit buffer, DC
  predictions, restart counters) and the output written so far are those before the
  call. (4) Let a row be written in which the row group becomes complete, the MCUs
  \<open>mcu_ctr\<close> to \<open>mcu_ctr + k - 1\<close> of the current MCU row are encoded and the next one
  does not fit. Then \<^verbatim>\<open>compress_data\<close> returns \<^verbatim>\<open>FALSE\<close> with the counter of that MCU
  saved, \<^verbatim>\<open>process_data_simple_main\<close> takes the input row back and marks the
  suspension, \<^verbatim>\<open>jpeg_write_scanlines\<close> returns a number of rows other than 1, and the
  loop of \<^verbatim>\<open>jsc_compress_rst\<close> returns -1 after the warning
  \<^verbatim>\<open>JERR_JSC_WRITE_LINE_FAIL\<close>; the encoder is then in the state after the last MCU that
  was encoded.
\<close>

theorem output_exhaustion_rewinds_and_fails:
  assumes "global_state (enc obj) = CSTATE_SCANNING"
    and "next_scanline obj < image_height (enc obj)"
    and "(if call_pass_startup obj then startup obj else Inr obj) = Inr obj1"
    and "0 \<le> next_scanline obj1" and "next_scanline obj1 < image_height (enc obj1)"
    and "image_height (enc obj1) < 2 ^ 32"
    and "cur_iMCU_row (mainp obj1) < total_iMCU_rows (enc obj1)"
    and "\<not> suspended (mainp obj1)"
    and "(if rowgroup_ctr (mainp obj1) < u32 (min_DCT_v_scaled_size (enc obj1))
          then prep obj1 buf (rows (next_scanline obj)) 0 1 (rowgroup_ctr (mainp obj1))
          else (buf, 0, rowgroup_ctr (mainp obj1)))
         = (buf1, irc1, u32 (min_DCT_v_scaled_size (enc obj1)))"
    and "0 \<le> irc1" and "irc1 \<le> 1"
    and "MCU_vert_offset (coef obj1) < MCU_rows_per_iMCU_row (coef obj1)"
    and "0 \<le> mcu_ctr (coef obj1)"
    and "mcu_ctr (coef obj1) + int k \<le> u32 (MCUs_per_row obj1 - 1)"
    and "encode_mcus (enc obj1)
           (map (fdct buf1 (iMCU_row_num (coef obj1)) (MCU_vert_offset (coef obj1)))
              [mcu_ctr (coef obj1)..mcu_ctr (coef obj1) + int k - 1]) = Inr (True, c1)"
    and "encode_mcu_huff c1
           (fdct buf1 (iMCU_row_num (coef obj1)) (MCU_vert_offset (coef obj1))
              (mcu_ctr (coef obj1) + int k)) = Inr (False, c2)"
  shows "(dest_ok (ws_dest s) \<longrightarrow>
           (case emit_byte_s s v of (ok, s') \<Rightarrow>
              free_in_buffer (ws_dest s') = free_in_buffer (ws_dest s) - 1 \<and>
              0 \<le> free_in_buffer (ws_dest s') \<and>
              (ok \<longleftrightarrow> free_in_buffer (ws_dest s') \<noteq> 0)))
       \<and> (scan_ok cinfo \<and> encode_mcu_huff cinfo MCU_data = Inr (True, c') \<longrightarrow>
           dest_ok (dest c') \<and> 0 < free_in_buffer (dest c'))
       \<and> (encode_mcu_huff cinfo' MCU_data' = Inr (False, c'') \<longrightarrow>
           next_output_byte (dest c'') = next_output_byte (dest cinfo') \<and>
           free_in_buffer (dest c'') = free_in_buffer (dest cinfo') \<and>
           entropy c'' = entropy cinfo' \<and>
           written (dest c'') = written (dest cinfo'))
       \<and> jsc_compress_rows startup prep (compress_data fdct) finish obj buf rows =
           Some (Inr (- 1,
             obj1\<lparr>enc := c2,
                   coef := (coef obj1)\<lparr>mcu_ctr := mcu_ctr (coef obj1) + int k\<rparr>,
                   mainp := (mainp obj1)
                     \<lparr>rowgroup_ctr := u32 (min_DCT_v_scaled_size (enc obj1)),
                      suspended := True\<rparr>,
                   next_scanline := u32 (next_scanline obj1 + u32 (irc1 - 1)),
                   c_warned := c_warned obj1 @ [JERR_JSC_WRITE_LINE_FAIL]\<rparr>))
       \<and> next_output_byte (dest c2) = next_output_byte (dest c1)
       \<and> free_in_buffer (dest c2) = free_in_buffer (dest c1)
       \<and> entropy c2 = entropy c1"
proof (intro conjI impI)
  assume d: "dest_ok (ws_dest s)"
  obtain ok s' where e: "emit_byte_s s v = (ok, s')" by (cases "emit_byte_s s v")
  show "case emit_byte_s s v of (ok, s') \<Rightarrow>
              free_in_buffer (ws_dest s') = free_in_buffer (ws_dest s) - 1 \<and>
              0 \<le> free_in_buffer (ws_dest s') \<and>
              (ok \<longleftrightarrow> free_in_buffer (ws_dest s') \<noteq> 0)"
    using emit_byte_s_count(1-3)[OF d e] by (simp add: e)
next
  assume a: "scan_ok cinfo \<and> encode_mcu_huff cinfo MCU_data = Inr (True, c')"
  then have "scan_ok c'" using encode_mcu_huff_True[of cinfo MCU_data c'] by blast
  then show "dest_ok (dest c')" "0 < free_in_buffer (dest c')"
    by (simp_all add: scan_ok_def dest_ok_def)
next
  assume a: "encode_mcu_huff cinfo' MCU_data' = Inr (False, c'')"
  show "next_output_byte (dest c'') = next_output_byte (dest cinfo')"
    "free_in_buffer (dest c'') = free_in_buffer (dest cinfo')"
    "entropy c'' = entropy cinfo'"
    "written (dest c'') = written (dest cinfo')"
    by (rule encode_mcu_huff_False[OF a])+
next
  define objx where "objx = obj1\<lparr>mainp := (mainp obj1)
                     \<lparr>rowgroup_ctr := u32 (min_DCT_v_scaled_size (enc obj1))\<rparr>\<rparr>"
  have x: "enc objx = enc obj1" "coef objx = coef obj1" "MCUs_per_row objx = MCUs_per_row obj1"
    by (simp_all add: objx_def)
  have cd: "compress_data fdct objx buf1 =
           Some (Inr (False, objx\<lparr>enc := c2,
                                  coef := (coef objx)\<lparr>mcu_ctr := mcu_ctr (coef objx) + int k\<rparr>\<rparr>))"
    by (rule compress_data_fails[where obj = objx and fdct = fdct and buf = buf1 and n = k
          and ?c1.0 = c1 and ?c2.0 = c2])
       (simp_all only: x assms(12-16))
  define obj2 where "obj2 = objx\<lparr>enc := c2,
                  coef := (coef objx)\<lparr>mcu_ctr := mcu_ctr (coef objx) + int k\<rparr>\<rparr>"
  have ns: "\<not> suspended (mainp obj2)"
    using assms(8) by (simp add: objx_def obj2_def)
  have cd': "compress_data fdct (obj1\<lparr>mainp := (mainp obj1)
                     \<lparr>rowgroup_ctr := u32 (min_DCT_v_scaled_size (enc obj1))\<rparr>\<rparr>) buf1
               = Some (Inr (False, obj2))"
    using cd by (simp only: objx_def[symmetric] obj2_def[symmetric])
  have "jsc_compress_rows startup prep (compress_data fdct) finish obj buf rows =
           Some (Inr (- 1, obj2\<lparr>mainp := (mainp obj2)\<lparr>suspended := True\<rparr>,
                               next_scanline := u32 (next_scanline obj2 + u32 (irc1 - 1)),
                               c_warned := c_warned obj2 @ [JERR_JSC_WRITE_LINE_FAIL]\<rparr>))"
  proof (rule jsc_compress_rows_fails[where startup = startup and prep = prep
          and cdata = "compress_data fdct" and finish = finish and obj = obj and buf = buf
          and rows = rows and ?obj1.0 = obj1 and ?buf1.0 = buf1 and ?irc1.0 = irc1
          and ?obj2.0 = obj2])
    show "global_state (enc obj) = CSTATE_SCANNING" by (rule assms(1))
    show "next_scanline obj < image_height (enc obj)" by (rule assms(2))
    show "(if call_pass_startup obj then startup obj else Inr obj) = Inr obj1"
      by (rule assms(3))
    show "0 \<le> next_scanline obj1" by (rule assms(4))
    show "next_scanline obj1 < image_height (enc obj1)" by (rule assms(5))
    show "image_height (enc obj1) < 2 ^ 32" by (rule assms(6))
    show "cur_iMCU_row (mainp obj1) < total_iMCU_rows (enc obj1)" by (rule assms(7))
    show "(if rowgroup_ctr (mainp obj1) < u32 (min_DCT_v_scaled_size (enc obj1))
          then prep obj1 buf (rows (next_scanline obj)) 0 1 (rowgroup_ctr (mainp obj1))
          else (buf, 0, rowgroup_ctr (mainp obj1)))
         = (buf1, irc1, u32 (min_DCT_v_scaled_size (enc obj1)))" by (rule assms(9))
    show "0 \<le> irc1" by (rule assms(10))
    show "irc1 \<le> 1" by (rule assms(11))
    show "compress_data fdct (obj1\<lparr>mainp := (mainp obj1)
                     \<lparr>rowgroup_ctr := u32 (min_DCT_v_scaled_size (enc obj1))\<rparr>\<rparr>) buf1
               = Some (Inr (False, obj2))" by (rule cd')
    show "\<not> suspended (mainp obj2)" by (rule ns)
  qed
  then show "jsc_compress_rows startup prep (compress_data fdct) finish obj buf rows =
           Some (Inr (- 1,
             obj1\<lparr>enc := c2,
                   coef := (coef obj1)\<lparr>mcu_ctr := mcu_ctr (coef obj1) + int k\<rparr>,
                   mainp := (mainp obj1)
                     \<lparr>rowgroup_ctr := u32 (min_DCT_v_scaled_size (enc obj1)),
                      suspended := True\<rparr>,
                   next_scanline := u32 (next_scanline obj1 + u32 (irc1 - 1)),
                   c_warned := c_warned obj1 @ [JERR_JSC_WRITE_LINE_FAIL]\<rparr>))"
    by (simp add: objx_def obj2_def)
next
  show "next_output_byte (dest c2) = next_output_byte (dest c1)"
    "free_in_buffer (dest c2) = free_in_buffer (dest c1)"
    "entropy c2 = entropy c1"
    by (rule encode_mcu_huff_False[OF assms(16)])+
qed


text \<open>
  The example: the first MCU of the row does not fit into the two bytes that are free.
  FE and FF are stored, the count reaches zero, and the compression ends with -1; the
  destination still has its pointer at 0 and two bytes free.
\<close>

theorem output_exhaustion_rewinds_and_fails_witness:
  "global_state (enc example_object) = CSTATE_SCANNING \<and>
   next_scanline example_object < image_height (enc example_object) \<and>
   \<not> suspended (mainp example_object) \<and>
   dest_ok (ws_dest example_state) \<and> scan_ok example_scan \<and>
   encode_mcu_huff (enc example_object) [example_block]
     = Inr (False, (enc example_object)
              \<lparr>dest := (dest (enc example_object))\<lparr>outbuf := [0xFE, 0xFF]\<rparr>\<rparr>) \<and>
   (\<exists>c. encode_mcu_huff example_scan [example_block] = Inr (True, c)
        \<and> 0 < free_in_buffer (dest c)) \<and>
   jsc_compress_rows Inr example_prep (compress_data example_fdct) Inr
       example_object () (\<lambda>n. ())
     = Some (Inr (- 1,
         example_object
           \<lparr>enc := (enc example_object)
                     \<lparr>dest := \<lparr>outbuf = [0xFE, 0xFF], next_output_byte = 0,
                              free_in_buffer = 2\<rparr>\<rparr>,
            mainp := \<lparr>cur_iMCU_row = 0, rowgroup_ctr = 8, suspended = True\<rparr>,
            c_warned := [JERR_JSC_WRITE_LINE_FAIL]\<rparr>))"
proof -
  define c2 where "c2 = (enc example_object)
              \<lparr>dest := (dest (enc example_object))\<lparr>outbuf := [0xFE, 0xFF]\<rparr>\<rparr>"
  have h1: "global_state (enc example_object) = CSTATE_SCANNING" by code_simp
  have h2: "next_scanline example_object < image_height (enc example_object)" by code_simp
  have h3: "(if call_pass_startup example_object then Inr example_object
             else Inr example_object) = (Inr example_object :: jsc_error + compress_object)"
    by simp
  have h4: "0 \<le> next_scanline example_object" by code_simp
  have h6: "image_height (enc example_object) < 2 ^ 32" by code_simp
  have h7: "cur_iMCU_row (mainp example_object) < total_iMCU_rows (enc example_object)"
    by code_simp
  have h8: "\<not> suspended (mainp example_object)" by code_simp
  have h9: "(if rowgroup_ctr (mainp example_object)
                 < u32 (min_DCT_v_scaled_size (enc example_object))
          then example_prep example_object () ((\<lambda>n. ()) (next_scanline example_object)) 0 1
                 (rowgroup_ctr (mainp example_object))
          else ((), 0, rowgroup_ctr (mainp example_object)))
         = ((), 1, u32 (min_DCT_v_scaled_size (enc example_object)))"
    by code_simp
  have h12: "MCU_vert_offset (coef example_object) < MCU_rows_per_iMCU_row (coef example_object)"
    by code_simp
  have h13: "0 \<le> mcu_ctr (coef example_object)" by code_simp
  have h14: "mcu_ctr (coef example_object) + int 0 \<le> u32 (MCUs_per_row example_object - 1)"
    by code_simp
  have h15: "encode_mcus (enc example_object)
           (map (example_fdct () (iMCU_row_num (coef example_object))
                   (MCU_vert_offset (coef example_object)))
              [mcu_ctr (coef example_object)..mcu_ctr (coef example_object) + int 0 - 1])
           = Inr (True, enc example_object)"
    by code_simp
  have f: "encode_mcu_huff (enc example_object) [example_block] = Inr (False, c2)"
    unfolding c2_def by code_simp
  have h16: "encode_mcu_huff (enc example_object)
           (example_fdct () (iMCU_row_num (coef example_object))
              (MCU_vert_offset (coef example_object))
              (mcu_ctr (coef example_object) + int 0)) = Inr (False, c2)"
    using f by (simp add: example_fdct_def)
  have "case encode_mcu_huff example_scan [example_block] of
          Inr (True, c) \<Rightarrow> 0 < free_in_buffer (dest c) | _ \<Rightarrow> False"
    by code_simp
  then obtain c where c: "encode_mcu_huff example_scan [example_block] = Inr (True, c)"
      "0 < free_in_buffer (dest c)"
    by (auto split: sum.splits prod.splits bool.splits)
  have d: "dest_ok (ws_dest example_state)" "scan_ok example_scan"
    by (simp_all add: dest_ok_def scan_ok_def example_state_def example_scan_def
        example_dest_def)
  have r: "example_object
             \<lparr>enc := c2,
              coef := (coef example_object)\<lparr>mcu_ctr := mcu_ctr (coef example_object) + int 0\<rparr>,
              mainp := (mainp example_object)
                 \<lparr>rowgroup_ctr := u32 (min_DCT_v_scaled_size (enc example_object)),
                  suspended := True\<rparr>,
              next_scanline := u32 (next_scanline example_object + u32 (1 - 1)),
              c_warned := c_warned example_object @ [JERR_JSC_WRITE_LINE_FAIL]\<rparr>
           = example_object
           \<lparr>enc := (enc example_object)
                     \<lparr>dest := \<lparr>outbuf = [0xFE, 0xFF], next_output_byte = 0,
                              free_in_buffer = 2\<rparr>\<rparr>,
            mainp := \<lparr>cur_iMCU_row = 0, rowgroup_ctr = 8, suspended = True\<rparr>,
            c_warned := [JERR_JSC_WRITE_LINE_FAIL]\<rparr>"
    unfolding c2_def by code_simp
  have "jsc_compress_rows Inr example_prep (compress_data example_fdct) Inr
       example_object () (\<lambda>n. ())
     = Some (Inr (- 1, example_object
             \<lparr>enc := c2,
              coef := (coef example_object)\<lparr>mcu_ctr := mcu_ctr (coef example_object) + int 0\<rparr>,
              mainp := (mainp example_object)
                 \<lparr>rowgroup_ctr := u32 (min_DCT_v_scaled_size (enc example_object)),
                  suspended := True\<rparr>,
              next_scanline := u32 (next_scanline example_object + u32 (1 - 1)),
              c_warned := c_warned example_object @ [JERR_JSC_WRITE_LINE_FAIL]\<rparr>))"
    using output_exhaustion_rewinds_and_fails
      [where obj = example_object and ?obj1.0 = example_object and startup = Inr
         and prep = example_prep and fdct = example_fdct and finish = Inr
         and buf = "()" and ?buf1.0 = "()" and rows = "\<lambda>n. ()" and ?irc1.0 = 1 and k = 0
         and ?c1.0 = "enc example_object" and ?c2.0 = c2,
       OF h1 h2 h3 h4 h2 h6 h7 h8 h9 _ _ h12 h13 h14 h15 h16]
    by simp
  then have final: "jsc_compress_rows Inr example_prep (compress_data example_fdct) Inr
       example_object () (\<lambda>n. ())
     = Some (Inr (- 1,
         example_object
           \<lparr>enc := (enc example_object)
                     \<lparr>dest := \<lparr>outbuf = [0xFE, 0xFF], next_output_byte = 0,
                              free_in_buffer = 2\<rparr>\<rparr>,
            mainp := \<lparr>cur_iMCU_row = 0, rowgroup_ctr = 8, suspended = True\<rparr>,
            c_warned := [JERR_JSC_WRITE_LINE_FAIL]\<rparr>))"
    by (simp only: r)
  show ?thesis
    using h1 h2 h8 d c f[unfolded c2_def] final by blast
qed

section \<open>Properties: filling the bit buffer\<close>















end
